theory Spec2Isabelle
  imports Complex_Main
begin

section \<open>Strings\<close>

text \<open>
  A JavaScript string is modelled as a \<^typ>\<open>string\<close>: one \<^typ>\<open>char\<close> per code unit, for
  the code units \<open>0x00\<close> to \<open>0xFF\<close>. \<open>String.prototype.trim\<close> and the class \<open>\s\<close> of a
  regular expression use the same set, WhiteSpace and LineTerminator; in this range these are
  TAB, LF, VT, FF, CR, SPACE and NBSP.
\<close>

definition newline :: char where
  "newline = CHR 0x0A"

definition isWhiteSpace :: "char \<Rightarrow> bool" where
  "isWhiteSpace c =
     (c = CHR 0x09 \<or> c = CHR 0x0A \<or> c = CHR 0x0B \<or> c = CHR 0x0C \<or> c = CHR 0x0D \<or>
      c = CHR 0x20 \<or> c = CHR 0xA0)"

text \<open>\<open>s.trim()\<close>: the string without its leading and trailing white space.\<close>

definition trim :: "string \<Rightarrow> string" where
  "trim s = rev (dropWhile isWhiteSpace (rev (dropWhile isWhiteSpace s)))"

text \<open>\<open>s.includes(sub)\<close>: \<open>sub\<close> occurs in \<open>s\<close> as a contiguous run.\<close>

fun startsWith :: "string \<Rightarrow> string \<Rightarrow> bool" where
  "startsWith s [] = True"
| "startsWith [] (p # ps) = False"
| "startsWith (c # cs) (p # ps) = (c = p \<and> startsWith cs ps)"

fun str_includes :: "string \<Rightarrow> string \<Rightarrow> bool" where
  "str_includes [] sub = (sub = [])"
| "str_includes (c # cs) sub = (startsWith (c # cs) sub \<or> str_includes cs sub)"

text \<open>
  \<open>arr.slice(start)\<close> with one argument: a negative \<open>start\<close> counts from the end and is
  clamped at the first element, a non-negative one is clamped at the length.
\<close>

definition slice :: "'a list \<Rightarrow> int \<Rightarrow> 'a list" where
  "slice arr start =
     (let len = int (length arr);
          k = (if start < 0 then max (len + start) 0 else min start len)
      in drop (nat k) arr)"

section \<open>Errors\<close>

text \<open>
  A thrown value is an error object of the class \<open>Error\<close> or \<open>TypeError\<close> with its message.
  \<open>cannot_read p\<close> is the message of the TypeError that the engine throws on reading the
  property \<open>p\<close> of \<open>undefined\<close>.
\<close>

datatype error = Error string | TypeError string

fun error_message :: "error \<Rightarrow> string" where
  "error_message (Error m) = m"
| "error_message (TypeError m) = m"

definition cannot_read :: "string \<Rightarrow> string" where
  "cannot_read p =
     ''Cannot read properties of undefined (reading '' @ [CHR 0x27] @ p @ [CHR 0x27] @ '')''"

text \<open>
  \<open>String(error)\<close>, that is \<open>Error.prototype.toString\<close>: the name of the class alone when the
  message is empty, otherwise the name, a colon and a blank, and the message.
\<close>

fun error_to_string :: "error \<Rightarrow> string" where
  "error_to_string (Error m) = (if m = [] then ''Error'' else ''Error: '' @ m)"
| "error_to_string (TypeError m) = (if m = [] then ''TypeError'' else ''TypeError: '' @ m)"

section \<open>Settings, store and history turns\<close>

text \<open>
  \<open>settings.store\<close>, with the fields the reply loop reads. \<open>cooldown\<close> and \<open>historyLength\<close> are
  numbers of the settings dialog: \<open>cooldown\<close> is taken as a real number, which every finite
  double is, and \<open>historyLength\<close> as an integer.
\<close>

record settings =
  enabled :: bool
  aiProvider :: string
  model :: string
  apiKey :: string
  cooldown :: real
  customInstructions :: string
  historyLength :: int
  showTyping :: bool

text \<open>A message of the host's \<open>MessageStore\<close>: the id of its author and its content.\<close>

record stored_message =
  author_id :: string
  content :: string

text \<open>The interface \<open>ChatHistory\<close>: a role and the texts of its parts.\<close>

datatype role = User | Model

record ChatHistory =
  role :: role
  parts :: "string list"

text \<open>
  What the host gives the plugin: \<open>MessageStore.getMessages(channelId)\<close>, which is \<open>undefined\<close>
  (\<open>None\<close>) or a collection whose \<open>toArray()\<close> lists the messages oldest first, and the id of
  the local user, \<open>window.DiscordNative.crashReporter.getMetadata().user_id\<close>.
\<close>

record host =
  getMessages :: "string \<Rightarrow> stored_message list option"
  user_id :: string

section \<open>History assembler\<close>

text \<open>
  \<open>getMessageHistory\<close>, step by step as in the source: the last \<open>historyLength\<close> messages
  (\<open>?.toArray().slice(-historyLength) || []\<close>), each mapped to a turn with one part, the turns
  with empty trimmed text filtered out, and the role of \<open>msgdict[0]\<close> rewritten.
  Reading \<open>msgdict[0].role\<close> when \<open>msgdict\<close> is empty throws a TypeError.
  In the filter, every turn has the one part the map gave it.
\<close>

definition fetched_window :: "host \<Rightarrow> settings \<Rightarrow> string \<Rightarrow> stored_message list" where
  "fetched_window h st channelId =
     (case getMessages h channelId of
        None \<Rightarrow> []
      | Some arr \<Rightarrow> slice arr (- historyLength st))"

definition to_turn :: "string \<Rightarrow> stored_message \<Rightarrow> ChatHistory" where
  "to_turn selfId msg =
     \<lparr>role = (if author_id msg = selfId then Model else User), parts = [content msg]\<rparr>"

definition nonempty_turn :: "ChatHistory \<Rightarrow> bool" where
  "nonempty_turn msg = (case parts msg of [] \<Rightarrow> False | t # _ \<Rightarrow> trim t \<noteq> [])"

definition getMessageHistory :: "host \<Rightarrow> settings \<Rightarrow> string \<Rightarrow> error + ChatHistory list" where
  "getMessageHistory h st channelId =
     (let messages = fetched_window h st channelId;
          selfId = user_id h;
          msgdict = filter nonempty_turn (map (to_turn selfId) messages)
      in case msgdict of
           [] \<Rightarrow> Inl (TypeError (cannot_read ''role''))
         | m # ms \<Rightarrow> Inr ((if role m = Model then m\<lparr>role := User\<rparr> else m) # ms))"

section \<open>Provider adapter\<close>

text \<open>
  The two ways out of the client: the Gemini SDK (\<open>startChat\<close> with the history, then
  \<open>sendMessage\<close>) and \<open>fetch\<close> on a completions endpoint. A request records what the code
  hands over; the sampling constants (temperature 0.9, topK 40, topP 0.95, max_tokens 1000)
  are the same in every request and are left out.
\<close>

record gemini_request =
  g_apiKey :: string
  g_model :: string
  g_history :: "ChatHistory list"
  g_message :: string

record wire_message =
  w_role :: string
  w_content :: string

record http_request =
  endpoint :: string
  authorization :: string
  body_model :: string
  body_messages :: "wire_message list"

text \<open>
  The response of \<open>fetch\<close>: \<open>response.ok\<close>, \<open>response.statusText\<close>, and what
  \<open>(await response.json()).choices[0].message.content\<close> evaluates to, a string or a throw.
\<close>

record http_response =
  ok :: bool
  statusText :: string
  json_content :: "error + string"

text \<open>
  The network answers through two functions of the request; either may throw instead.
\<close>

record network =
  gemini_sendMessage :: "gemini_request \<Rightarrow> error + string"
  fetch :: "http_request \<Rightarrow> error + http_response"

text \<open>
  Everything the reply loop does is recorded, in program order, as a list of steps: what it
  does to the outside, and its assignments to the two variables that outlive a call,
  \<open>deBounce\<close> and \<open>hasShownError\<close>.
  \<open>Pace n\<close> is the pause before a send, \<open>n\<close> being \<open>length * 40\<close>; the random addend
  \<open>Math.random() * 2000\<close> is not part of the model. \<open>Cooldown r\<close> is the wait of the \<open>finally\<close>
  block, \<open>r\<close> being \<open>settings.store.cooldown\<close>: the engine waits \<open>r * 1000\<close> milliseconds, a
  product of doubles that the model does not compute. Console output is not recorded.
\<close>

datatype effect =
    TypingPost string
  | GeminiCall gemini_request
  | FetchCall http_request
  | CSPAlert string
  | Pace nat
  | SendMessage string string
  | ErrorAlert
  | AlertTimer nat
  | Cooldown real
  | Assign_deBounce bool
  | Assign_hasShownError bool

text \<open>\<open>x || d\<close> on strings: the empty string is falsy.\<close>

definition or_default :: "string \<Rightarrow> string \<Rightarrow> string" where
  "or_default x d = (if x = [] then d else x)"

text \<open>
  The \<open>messages\<close> of the request body: every turn of the history with its role renamed
  (only deepseek gets \<open>assistant\<close> for \<open>model\<close>) and the text of its first part, then the new
  user turn. \<open>msg.parts[0].text\<close> throws when a turn has no part.
\<close>

fun role_name :: "role \<Rightarrow> string" where
  "role_name User = ''user''"
| "role_name Model = ''model''"

definition wire_role :: "string \<Rightarrow> role \<Rightarrow> string" where
  "wire_role provider r =
     (if provider = ''deepseek'' \<and> r = Model then ''assistant'' else role_name r)"

fun wire_history :: "string \<Rightarrow> ChatHistory list \<Rightarrow> error + wire_message list" where
  "wire_history provider [] = Inr []"
| "wire_history provider (msg # rest) =
     (case parts msg of
        [] \<Rightarrow> Inl (TypeError (cannot_read ''text''))
      | t # _ \<Rightarrow>
          (case wire_history provider rest of
             Inl e \<Rightarrow> Inl e
           | Inr ws \<Rightarrow> Inr (\<lparr>w_role = wire_role provider (role msg), w_content = t\<rparr> # ws)))"

definition gemini_branch ::
  "network \<Rightarrow> string \<Rightarrow> string \<Rightarrow> ChatHistory list \<Rightarrow> string \<Rightarrow> (error + string) \<times> effect list"
where
  "gemini_branch net key mdl history message =
     (let req = \<lparr>g_apiKey = key, g_model = or_default mdl ''gemini-2.5-pro'',
                   g_history = history, g_message = message\<rparr>
      in (gemini_sendMessage net req, [GeminiCall req]))"

definition rest_request ::
  "string \<Rightarrow> string \<Rightarrow> string \<Rightarrow> ChatHistory list \<Rightarrow> string \<Rightarrow> error + http_request"
where
  "rest_request provider key mdl history message =
     (let ep = (if provider = ''deepseek''
                then ''https://api.deepseek.com/v1/chat/completions''
                else ''https://api.openai.com/v1/chat/completions'');
          modelName = or_default mdl
                        (if provider = ''deepseek'' then ''deepseek-chat'' else ''gpt-3.5-turbo'')
      in case wire_history provider history of
           Inl e \<Rightarrow> Inl e
         | Inr ws \<Rightarrow>
             Inr \<lparr>endpoint = ep, authorization = ''Bearer '' @ key, body_model = modelName,
                  body_messages = ws @ [\<lparr>w_role = ''user'', w_content = message\<rparr>]\<rparr>)"

definition rest_branch ::
  "network \<Rightarrow> string \<Rightarrow> string \<Rightarrow> string \<Rightarrow> ChatHistory list \<Rightarrow> string
     \<Rightarrow> (error + string) \<times> effect list"
where
  "rest_branch net provider key mdl history message =
     (case rest_request provider key mdl history message of
        Inl e \<Rightarrow> (Inl e, [])
      | Inr req \<Rightarrow>
          (case fetch net req of
             Inl e \<Rightarrow> (Inl e, [FetchCall req])
           | Inr response \<Rightarrow>
               if \<not> ok response
               then (Inl (Error (''API request failed: '' @ statusText response)), [FetchCall req])
               else (json_content response, [FetchCall req])))"

text \<open>
  The \<open>catch\<close> of \<open>makeAICall\<close>: when the message of the error names one of the keywords,
  and the provider is a non-empty string, \<open>handleCSPError\<close> shows its dialog; the error is
  thrown again in every case.
\<close>

definition looks_like_csp :: "string \<Rightarrow> bool" where
  "looks_like_csp errorMessage =
     (errorMessage \<noteq> [] \<and>
      (str_includes errorMessage ''fetch'' \<or>
       str_includes errorMessage ''network'' \<or>
       str_includes errorMessage ''CORS'' \<or>
       str_includes errorMessage ''blocked'' \<or>
       str_includes errorMessage ''CSP'' \<or>
       str_includes errorMessage ''violates the following Content Security Policy''))"

definition csp_catch :: "string \<Rightarrow> (error + string) \<times> effect list \<Rightarrow> (error + string) \<times> effect list" where
  "csp_catch provider r =
     (case fst r of
        Inr text \<Rightarrow> r
      | Inl e \<Rightarrow>
          if looks_like_csp (error_message e) \<and> provider \<noteq> []
          then (Inl e, snd r @ [CSPAlert provider])
          else r)"

text \<open>
  \<open>makeAICall\<close> of \<open>autoReply/index.tsx\<close>. The check of the API key is before the \<open>try\<close>.
  After the two provider branches the function logs \<open>No such provider!\<close> to the console and
  returns the empty string.
\<close>

definition makeAICall ::
  "settings \<Rightarrow> network \<Rightarrow> ChatHistory list \<Rightarrow> string \<Rightarrow> (error + string) \<times> effect list"
where
  "makeAICall st net history message =
     (let provider = aiProvider st in
      if apiKey st = [] then (Inl (Error ''API key is required''), [])
      else csp_catch provider
             (if provider = ''gemini''
              then gemini_branch net (apiKey st) (model st) history message
              else if provider = ''deepseek'' \<or> provider = ''openai''
              then rest_branch net provider (apiKey st) (model st) history message
              else (Inr [], [])))"

text \<open>
  \<open>makeAIRequest\<close>, the variant that runs in the main process: it takes provider, key and
  model as arguments, has no check of the key, and returns an object
  \<open>{ success, data }\<close> or \<open>{ success, error }\<close> instead of throwing.
\<close>

datatype ai_result = Success string | Failure string

fun caught :: "error + string \<Rightarrow> ai_result" where
  "caught (Inl e) = Failure (error_to_string e)"
| "caught (Inr text) = Success text"

definition makeAIRequest ::
  "network \<Rightarrow> string \<Rightarrow> string \<Rightarrow> string \<Rightarrow> ChatHistory list \<Rightarrow> string \<Rightarrow> ai_result \<times> effect list"
where
  "makeAIRequest net provider key mdl history message =
     (if provider = ''gemini''
      then (case gemini_branch net key mdl history message of
              (r, effs) \<Rightarrow> (caught r, effs))
      else if provider = ''deepseek'' \<or> provider = ''openai''
      then (case rest_request provider key mdl history message of
              Inl e \<Rightarrow> (caught (Inl e), [])
            | Inr req \<Rightarrow>
                (case fetch net req of
                   Inl e \<Rightarrow> (caught (Inl e), [FetchCall req])
                 | Inr response \<Rightarrow>
                     if \<not> ok response
                     then (Failure (''API request failed: '' @ statusText response),
                           [FetchCall req])
                     else (caught (json_content response), [FetchCall req])))
      else (Failure ''Unknown provider'', []))"

section \<open>Generating a reply\<close>

text \<open>
  \<open>generateReply\<close>: an empty message, or one that is empty after trimming, throws; otherwise
  the assembled history loses its last turn (\<open>history.pop()\<close>, which does nothing on an empty
  array), gets the custom instructions as a final user turn, and goes to \<open>makeAICall\<close>
  together with the message. The \<open>catch\<close> logs the error and throws it again.
\<close>

definition generateReply ::
  "host \<Rightarrow> settings \<Rightarrow> network \<Rightarrow> string \<Rightarrow> string \<Rightarrow> (error + string) \<times> effect list"
where
  "generateReply h st net channelId message =
     (if message = [] \<or> trim message = [] then (Inl (Error ''Empty message content''), [])
      else case getMessageHistory h st channelId of
             Inl e \<Rightarrow> (Inl e, [])
           | Inr history \<Rightarrow>
               makeAICall st net
                 (butlast history @ [\<lparr>role = User, parts = [customInstructions st]\<rparr>])
                 message)"

section \<open>Reply pacer and splitter\<close>

text \<open>
  The separator is the regular expression \<open>/\n\s*\n+/\<close>, matched with backtracking.
  \<open>nl_plus\<close> is the greedy \<open>\n+\<close> at the head of a string: the number of line feeds there, at
  least one. \<open>sep_tail\<close> is \<open>\s*\n+\<close>: the greedy star takes a white-space character and
  goes on; where that fails, or the character is no white space, it stops and \<open>\n+\<close> is tried
  at this place. \<open>match_sep\<close> is the whole expression at the head of a string; each gives the
  length of the match.
\<close>

definition nl_plus :: "string \<Rightarrow> nat option" where
  "nl_plus s =
     (let n = length (takeWhile (\<lambda>c. c = newline) s) in if n = 0 then None else Some n)"

fun sep_tail :: "string \<Rightarrow> nat option" where
  "sep_tail [] = None"
| "sep_tail (c # cs) =
     (if isWhiteSpace c
      then (case sep_tail cs of Some n \<Rightarrow> Some (Suc n) | None \<Rightarrow> nl_plus (c # cs))
      else nl_plus (c # cs))"

fun match_sep :: "string \<Rightarrow> nat option" where
  "match_sep [] = None"
| "match_sep (c # cs) =
     (if c = newline then (case sep_tail cs of Some n \<Rightarrow> Some (Suc n) | None \<Rightarrow> None)
      else None)"

text \<open>\<open>/\n\s*\n+/.test(reply)\<close>: the expression matches at some position.\<close>

fun test_sep :: "string \<Rightarrow> bool" where
  "test_sep [] = False"
| "test_sep (c # cs) = (match_sep (c # cs) \<noteq> None \<or> test_sep cs)"

text \<open>
  \<open>reply.split(/\n\s*\n+/)\<close>: the string is scanned from the left; where the expression matches,
  the part read so far is closed and the scan goes on behind the match; elsewhere the
  character joins the current part. The last part is what is left at the end.
\<close>

function split_from :: "string \<Rightarrow> string \<Rightarrow> string list" where
  "split_from cur [] = [cur]"
| "split_from cur (c # cs) =
     (case match_sep (c # cs) of
        Some n \<Rightarrow> cur # split_from [] (drop n (c # cs))
      | None \<Rightarrow> split_from (cur @ [c]) cs)"
  by pat_completeness auto
termination
  by (relation "measure (\<lambda>(cur, s). length s)") (auto split: if_splits option.splits)

definition split_sep :: "string \<Rightarrow> string list" where
  "split_sep s = split_from [] s"

text \<open>
  What the specification calls a blank-line separator and the paragraphs it separates, in
  words of their own and without the matcher. A separator is a string that starts with a
  line feed, ends with another line feed, and has only white space after its first
  character. \<open>has_separator\<close> says that one occurs in a string: at some line feed, the run of
  white space behind it holds another line feed. \<open>paragraphs_with reply ps seps\<close> says that
  \<open>ps\<close> are the paragraphs of \<open>reply\<close> and \<open>seps\<close> the separators between them: a reply
  without separator is its only paragraph; otherwise the reply is the first paragraph, the
  first separator and a rest, where the paragraph has no separator inside and no line feed
  in the white space at its end (the separator starts at the first line feed that can start
  one), the white space at the start of the rest has no line feed (the separator ends at
  the last line feed that can end it), and the further paragraphs are those of the rest.
\<close>

fun blank_line_separator :: "string \<Rightarrow> bool" where
  "blank_line_separator (a # b # cs) =
     (a = newline \<and> list_all isWhiteSpace (b # cs) \<and> last (b # cs) = newline)"
| "blank_line_separator s = False"

fun has_separator :: "string \<Rightarrow> bool" where
  "has_separator [] = False"
| "has_separator (c # cs) =
     ((c = newline \<and> newline \<in> set (takeWhile isWhiteSpace cs)) \<or> has_separator cs)"

fun paragraphs_with :: "string \<Rightarrow> string list \<Rightarrow> string list \<Rightarrow> bool" where
  "paragraphs_with reply [p] [] = (reply = p \<and> \<not> has_separator p)"
| "paragraphs_with reply (p # ps) (s # seps) =
     (reply = p @ s @ drop (length p + length s) reply \<and>
      \<not> has_separator p \<and>
      newline \<notin> set (takeWhile isWhiteSpace (rev p)) \<and>
      blank_line_separator s \<and>
      newline \<notin> set (takeWhile isWhiteSpace (drop (length p + length s) reply)) \<and>
      paragraphs_with (drop (length p + length s) reply) ps seps)"
| "paragraphs_with reply ps seps = False"

text \<open>
  The sends of \<open>handleMessage\<close> once the reply is there. \<open>typing\<close> is the guarded call of
  \<open>setTypingStatus\<close>, which posts the indicator and swallows any error of the post.
  \<open>send_parts\<close> is the \<open>for\<close> loop over the parts, \<open>send_reply\<close> the choice between the loop and
  the single send.
\<close>

definition typing :: "settings \<Rightarrow> string \<Rightarrow> effect list" where
  "typing st channelId = (if showTyping st then [TypingPost channelId] else [])"

fun send_parts :: "settings \<Rightarrow> string \<Rightarrow> string list \<Rightarrow> effect list" where
  "send_parts st channelId [] = []"
| "send_parts st channelId (part # rest) =
     (if trim part = [] then send_parts st channelId rest
      else typing st channelId @ [Pace (length part * 40), SendMessage channelId part]
           @ send_parts st channelId rest)"

definition send_reply :: "settings \<Rightarrow> string \<Rightarrow> string \<Rightarrow> effect list" where
  "send_reply st channelId reply =
     (if test_sep reply then send_parts st channelId (split_sep reply)
      else typing st channelId @ [Pace (length reply * 40), SendMessage channelId reply])"

text \<open>The contents of the outbound messages among the effects, in order.\<close>

fun sent_contents :: "effect list \<Rightarrow> string list" where
  "sent_contents [] = []"
| "sent_contents (SendMessage channelId c # rest) = c # sent_contents rest"
| "sent_contents (_ # rest) = sent_contents rest"

section \<open>Message handler\<close>

text \<open>
  The module's variables \<open>isStarted\<close>, \<open>deBounce\<close> and \<open>activeChannelId\<close> (\<open>null\<close> is
  \<open>None\<close>), the plugin's field \<open>hasShownError\<close>, and the settings store.
\<close>

record world =
  store :: settings
  isStarted :: bool
  deBounce :: bool
  activeChannelId :: "string option"
  hasShownError :: bool

text \<open>
  The payload of a \<open>MESSAGE_CREATE\<close> event: \<open>message.channelId\<close> and \<open>message.message\<close>, which
  may be missing. \<open>p_author_id\<close> is \<open>message.message.author?.id\<close>, \<open>None\<close> when the author or
  the id is missing; \<open>p_content\<close> is \<open>message.message.content\<close>.
\<close>

record payload =
  p_author_id :: "string option"
  p_content :: string

record event =
  e_channelId :: string
  e_message :: "payload option"

text \<open>
  The condition of the first \<open>if\<close> of \<open>handleMessage\<close>, in the order of the source: when it
  holds the handler returns at once.
\<close>

definition gate_closed :: "host \<Rightarrow> world \<Rightarrow> event \<Rightarrow> bool" where
  "gate_closed h w ev =
     (\<not> enabled (store w) \<or>
      (case e_message ev of
         None \<Rightarrow> True
       | Some m \<Rightarrow> (case p_author_id m of None \<Rightarrow> True | Some a \<Rightarrow> a = [])) \<or>
      (case e_message ev of
         None \<Rightarrow> False
       | Some m \<Rightarrow> p_author_id m = Some (user_id h)) \<or>
      Some (e_channelId ev) \<noteq> activeChannelId w \<or>
      \<not> isStarted w \<or>
      deBounce w)"

definition event_content :: "event \<Rightarrow> string" where
  "event_content ev = (case e_message ev of None \<Rightarrow> [] | Some m \<Rightarrow> p_content m)"

text \<open>
  What a step does to the variables: the two assignments write, every other step leaves
  the variables as they are.
\<close>

fun perform :: "world \<Rightarrow> effect \<Rightarrow> world" where
  "perform w (Assign_deBounce b) = w\<lparr>deBounce := b\<rparr>"
| "perform w (Assign_hasShownError b) = w\<lparr>hasShownError := b\<rparr>"
| "perform w _ = w"

definition run_steps :: "world \<Rightarrow> effect list \<Rightarrow> world" where
  "run_steps w steps = foldl perform w steps"

text \<open>The steps that go to the outside: all but the cooldown wait and the assignments.\<close>

fun outward :: "effect \<Rightarrow> bool" where
  "outward (Cooldown r) = False"
| "outward (Assign_deBounce b) = False"
| "outward (Assign_hasShownError b) = False"
| "outward e = True"

text \<open>
  The \<open>try\<close> block: the typing indicator, \<open>generateReply\<close>, and the sends; both the early
  \<open>return\<close> after the loop and the end of the block lead to \<open>finally\<close>.
  The \<open>catch\<close> block, unless \<open>hasShownError\<close> is set, sets it, shows the alert and starts the
  timer of one minute that clears it. The \<open>finally\<close> block waits for the cooldown and then
  clears \<open>deBounce\<close>.
\<close>

definition try_block ::
  "host \<Rightarrow> network \<Rightarrow> settings \<Rightarrow> event \<Rightarrow> (error + unit) \<times> effect list"
where
  "try_block h net st ev =
     (case generateReply h st net (e_channelId ev) (event_content ev) of
        (Inl e, effs) \<Rightarrow> (Inl e, typing st (e_channelId ev) @ effs)
      | (Inr reply, effs) \<Rightarrow>
          (Inr (), typing st (e_channelId ev) @ effs @ send_reply st (e_channelId ev) reply))"

definition catch_block :: "world \<Rightarrow> effect list" where
  "catch_block w =
     (if \<not> hasShownError w then [Assign_hasShownError True, ErrorAlert, AlertTimer 60000]
      else [])"

definition finally_block :: "world \<Rightarrow> effect list" where
  "finally_block w = [Cooldown (cooldown (store w)), Assign_deBounce False]"

text \<open>
  One whole execution of \<open>handleMessage\<close>, from the event to the end of \<open>finally\<close>, with
  nothing else running in between: the steps in order, each block reading the variables as
  the steps before it left them, and the world after the last step.
\<close>

definition handleMessage :: "host \<Rightarrow> network \<Rightarrow> world \<Rightarrow> event \<Rightarrow> world \<times> effect list" where
  "handleMessage h net w ev =
     (if gate_closed h w ev then (w, [])
      else
        (let begun = [Assign_deBounce True];
             w1 = run_steps w begun;
             tried = try_block h net (store w1) ev;
             w2 = run_steps w1 (snd tried);
             caught = (case fst tried of Inl e \<Rightarrow> catch_block w2 | Inr u \<Rightarrow> []);
             w3 = run_steps w2 caught;
             ended = finally_block w3
         in (run_steps w3 ended, begun @ snd tried @ caught @ ended)))"

section \<open>The gate under interleaving\<close>

text \<open>
  The handler is asynchronous: it runs from the event to its first \<open>await\<close> in one piece,
  and other events are handled while it waits. \<open>running\<close> counts the executions of
  \<open>handleMessage\<close> that have set \<open>deBounce\<close> and have not yet finished their \<open>finally\<close>.
  The actions are the events the plugin handles and the moments at which a waiting handler
  goes on: \<open>CatchRuns\<close> and \<open>FinallyEnds\<close> for the blocks of a running handler,
  \<open>AlertTimerFires\<close> for the timer of the alert, \<open>Toggle\<close> for the chat-bar button,
  \<open>Stop\<close> for \<open>stop()\<close>, \<open>Configure\<close> for a change of the settings.
\<close>

record system =
  globals :: world
  running :: nat

datatype action =
    MESSAGE_CREATE event
  | CHANNEL_SELECT string
  | Toggle
  | Stop
  | Configure settings
  | CatchRuns
  | AlertTimerFires
  | FinallyEnds

fun step :: "host \<Rightarrow> system \<Rightarrow> action \<Rightarrow> system" where
  "step h s (MESSAGE_CREATE ev) =
     (if gate_closed h (globals s) ev then s
      else s\<lparr>globals := perform (globals s) (Assign_deBounce True),
             running := Suc (running s)\<rparr>)"
| "step h s (CHANNEL_SELECT c) = s\<lparr>globals := (globals s)\<lparr>activeChannelId := Some c\<rparr>\<rparr>"
| "step h s Toggle = s\<lparr>globals := (globals s)\<lparr>isStarted := \<not> isStarted (globals s)\<rparr>\<rparr>"
| "step h s Stop = s\<lparr>globals := (globals s)\<lparr>activeChannelId := None\<rparr>\<rparr>"
| "step h s (Configure st) = s\<lparr>globals := (globals s)\<lparr>store := st\<rparr>\<rparr>"
| "step h s CatchRuns =
     (if running s = 0 then s
      else s\<lparr>globals := run_steps (globals s) (catch_block (globals s))\<rparr>)"
| "step h s AlertTimerFires = s\<lparr>globals := (globals s)\<lparr>hasShownError := False\<rparr>\<rparr>"
| "step h s FinallyEnds =
     (if running s = 0 then s
      else s\<lparr>globals := run_steps (globals s) (finally_block (globals s)),
             running := running s - 1\<rparr>)"

definition initial :: "settings \<Rightarrow> system" where
  "initial st =
     \<lparr>globals = \<lparr>store = st, isStarted = False, deBounce = False, activeChannelId = None,
                   hasShownError = False\<rparr>,
      running = 0\<rparr>"

definition run :: "host \<Rightarrow> system \<Rightarrow> action list \<Rightarrow> system" where
  "run h s acts = foldl (step h) s acts"

section \<open>Sample inputs\<close>

text \<open>
  A configured plugin with the Gemini provider, a host whose channel \<open>c1\<close> holds two messages
  of another user, a network that answers every Gemini request with \<open>ok\<close>, the armed and idle
  world focused on \<open>c1\<close>, and the event of the first of the two messages.
\<close>

definition sample_settings :: settings where
  "sample_settings =
     \<lparr>enabled = True, aiProvider = ''gemini'', model = [], apiKey = ''k'', cooldown = 5,
      customInstructions = ''Be brief.'', historyLength = 10, showTyping = True\<rparr>"

definition sample_host :: host where
  "sample_host =
     \<lparr>getMessages = (\<lambda>c. if c = ''c1''
                            then Some [\<lparr>author_id = ''u2'', content = ''hello''\<rparr>,
                                       \<lparr>author_id = ''u2'', content = ''are you there?''\<rparr>]
                            else None),
      user_id = ''u1''\<rparr>"

definition sample_network :: network where
  "sample_network =
     \<lparr>gemini_sendMessage = (\<lambda>req. Inr ''ok''),
      fetch = (\<lambda>req. Inl (TypeError ''Failed to fetch''))\<rparr>"

definition sample_world :: world where
  "sample_world =
     \<lparr>store = sample_settings, isStarted = True, deBounce = False,
      activeChannelId = Some ''c1'', hasShownError = False\<rparr>"

definition sample_event :: event where
  "sample_event =
     \<lparr>e_channelId = ''c1'', e_message = Some \<lparr>p_author_id = Some ''u2'', p_content = ''hello''\<rparr>\<rparr>"

text \<open>
  The same world while a reply is in flight, the system around both worlds, and the event of
  a message without text (an attachment, say) from the other user.
\<close>

definition sample_busy_world :: world where
  "sample_busy_world = sample_world\<lparr>deBounce := True\<rparr>"


definition sample_busy_system :: system where
  "sample_busy_system = \<lparr>globals = sample_busy_world, running = 1\<rparr>"


text \<open>
  A host whose channels hold nothing that survives the filter: \<open>c1\<close> has an empty list,
  \<open>c3\<close> one message of blanks, every other channel is unknown to the store. A host whose
  channel \<open>c1\<close> has two messages, one of blanks and one without text. And a host whose
  channel \<open>c1\<close> starts with a message of the local user and has one message of blanks.
\<close>

definition sample_quiet_host :: host where
  "sample_quiet_host =
     \<lparr>getMessages = (\<lambda>c. if c = ''c1'' then Some []
                            else if c = ''c3'' then Some [\<lparr>author_id = ''u2'', content = ''  ''\<rparr>]
                            else None),
      user_id = ''u1''\<rparr>"

definition sample_blank_host :: host where
  "sample_blank_host =
     \<lparr>getMessages = (\<lambda>c. if c = ''c1''
                            then Some [\<lparr>author_id = ''u2'', content = ''  ''\<rparr>,
                                       \<lparr>author_id = ''u1'', content = []\<rparr>]
                            else None),
      user_id = ''u1''\<rparr>"

definition sample_own_host :: host where
  "sample_own_host =
     \<lparr>getMessages = (\<lambda>c. if c = ''c1''
                            then Some [\<lparr>author_id = ''u1'', content = ''hi''\<rparr>,
                                       \<lparr>author_id = ''u2'', content = ''hello''\<rparr>,
                                       \<lparr>author_id = ''u1'', content = ''  ''\<rparr>,
                                       \<lparr>author_id = ''u1'', content = ''bye''\<rparr>]
                            else None),
      user_id = ''u1''\<rparr>"

text \<open>
  Settings with a provider that is none of the three, settings without an API key, and a
  network whose Gemini answer has two paragraphs.
\<close>

definition sample_unknown_settings :: settings where
  "sample_unknown_settings = sample_settings\<lparr>aiProvider := ''claude''\<rparr>"

definition sample_keyless_settings :: settings where
  "sample_keyless_settings = sample_settings\<lparr>apiKey := []\<rparr>"

definition sample_keyless_world :: world where
  "sample_keyless_world = sample_world\<lparr>store := sample_keyless_settings\<rparr>"

definition sample_two_part_network :: network where
  "sample_two_part_network =
     \<lparr>gemini_sendMessage =
        (\<lambda>req. Inr (''Hello there!'' @ [CHR 0x0A, CHR 0x0A] @ ''How are you?'')),
      fetch = (\<lambda>req. Inl (TypeError ''Failed to fetch''))\<rparr>"

section \<open>Properties of the gate\<close>

lemma step_keeps_count:
  "running s = (if deBounce (globals s) then 1 else 0) \<Longrightarrow>
   running (step h s a) = (if deBounce (globals (step h s a)) then 1 else 0)"
  by (cases a) (auto simp: gate_closed_def catch_block_def finally_block_def run_steps_def)

lemma run_keeps_count:
  "running s = (if deBounce (globals s) then 1 else 0) \<Longrightarrow>
   running (run h s acts) = (if deBounce (globals (run h s acts)) then 1 else 0)"
  unfolding run_def
proof (induction acts arbitrary: s)
  case Nil
  then show ?case by simp
next
  case (Cons a acts)
  from Cons.prems
  have "running (step h s a) = (if deBounce (globals (step h s a)) then 1 else 0)"
    by (rule step_keeps_count)
  then show ?case using Cons.IH by simp
qed

lemma sample_gate_open: "\<not> gate_closed sample_host sample_world sample_event"
  by (simp add: gate_closed_def sample_host_def sample_world_def sample_event_def
      sample_settings_def)

text \<open>
  C1. From the initial state, after any sequence of actions, the number of running reply
  cycles is 1 when \<open>deBounce\<close> is set and 0 when it is not, so never more than one. While
  \<open>deBounce\<close> is set, a \<open>MESSAGE_CREATE\<close> event leaves the whole state as it is and starts no
  cycle, and a whole execution of \<open>handleMessage\<close> returns the world unchanged with no
  effect at all.
\<close>

theorem gate_single_flight:
  "running (run h (initial st) acts) =
     (if deBounce (globals (run h (initial st) acts)) then 1 else 0)
   \<and> running (run h (initial st) acts) \<le> 1
   \<and> (deBounce (globals s) \<longrightarrow> step h s (MESSAGE_CREATE ev) = s)
   \<and> (deBounce w \<longrightarrow> handleMessage h net w ev = (w, []))"
proof -
  have "running (initial st) = (if deBounce (globals (initial st)) then 1 else 0)"
    by (simp add: initial_def)
  then have inv: "running (run h (initial st) acts) =
      (if deBounce (globals (run h (initial st) acts)) then 1 else 0)"
    by (rule run_keeps_count)
  then have "running (run h (initial st) acts) \<le> 1"
    by (simp split: if_splits)
  moreover have "deBounce (globals s) \<longrightarrow> step h s (MESSAGE_CREATE ev) = s"
    by (simp add: gate_closed_def)
  moreover have "deBounce w \<longrightarrow> handleMessage h net w ev = (w, [])"
    by (simp add: handleMessage_def gate_closed_def)
  ultimately show ?thesis using inv by blast
qed

theorem gate_single_flight_witness:
  "running (run sample_host (initial sample_settings)
             [CHANNEL_SELECT ''c1'', Toggle, MESSAGE_CREATE sample_event,
              MESSAGE_CREATE sample_event, MESSAGE_CREATE sample_event]) = 1
   \<and> deBounce (globals sample_busy_system)
   \<and> step sample_host sample_busy_system (MESSAGE_CREATE sample_event) = sample_busy_system
   \<and> deBounce sample_busy_world
   \<and> handleMessage sample_host sample_network sample_busy_world sample_event
       = (sample_busy_world, [])"
proof -
  have busy: "deBounce sample_busy_world" "deBounce (globals sample_busy_system)"
    by (simp_all add: sample_busy_system_def sample_busy_world_def)
  have set: "deBounce (globals (run sample_host (initial sample_settings)
             [CHANNEL_SELECT ''c1'', Toggle, MESSAGE_CREATE sample_event,
              MESSAGE_CREATE sample_event, MESSAGE_CREATE sample_event]))"
    by (simp add: run_def initial_def gate_closed_def sample_host_def sample_event_def
        sample_settings_def)
  show ?thesis
    using busy set
      gate_single_flight [where h = sample_host and st = sample_settings
        and acts = "[CHANNEL_SELECT ''c1'', Toggle, MESSAGE_CREATE sample_event,
                     MESSAGE_CREATE sample_event, MESSAGE_CREATE sample_event]"
        and s = sample_busy_system and ev = sample_event and w = sample_busy_world
        and net = sample_network]
    by simp
qed

lemma run_steps_store: "store (run_steps w steps) = store w"
  unfolding run_steps_def
proof (induction steps arbitrary: w)
  case Nil
  then show ?case by simp
next
  case (Cons e steps)
  have "store (perform w e) = store w" by (cases e) simp_all
  with Cons.IH [of "perform w e"] show ?case by simp
qed

lemma run_steps_append: "run_steps w (xs @ ys) = run_steps (run_steps w xs) ys"
  by (simp add: run_steps_def)

lemma handleMessage_open:
  "\<not> gate_closed h w ev \<Longrightarrow>
   handleMessage h net w ev =
     (let tried = try_block h net (store w) ev;
          caught = (case fst tried of
                      Inl e \<Rightarrow> catch_block (run_steps w (Assign_deBounce True # snd tried))
                    | Inr u \<Rightarrow> []);
          steps = Assign_deBounce True # snd tried @ caught @
                    [Cooldown (cooldown (store w)), Assign_deBounce False]
      in (run_steps w steps, steps))"
proof -
  assume open_gate: "\<not> gate_closed h w ev"
  have st: "store (foldl perform v steps) = store v" for v steps
    using run_steps_store [of v steps] by (simp add: run_steps_def)
  show ?thesis
    using open_gate
    by (cases "fst (try_block h net (store w) ev)")
      (simp_all add: handleMessage_def Let_def finally_block_def run_steps_def st)
qed




section \<open>Properties of the history assembler\<close>

lemma nonempty_to_turn: "nonempty_turn (to_turn self m) = (trim (content m) \<noteq> [])"
  by (simp add: nonempty_turn_def to_turn_def)

lemma kept_turns_eq:
  "filter nonempty_turn (map (to_turn self) ms) =
   map (to_turn self) (filter (\<lambda>m. trim (content m) \<noteq> []) ms)"
  by (induction ms) (simp_all add: nonempty_to_turn)

lemma getMessageHistory_empty:
  "filter (\<lambda>m. trim (content m) \<noteq> []) (fetched_window h st c) = [] \<Longrightarrow>
   getMessageHistory h st c = Inl (TypeError (cannot_read ''role''))"
  by (simp add: getMessageHistory_def kept_turns_eq)

lemma getMessageHistory_returns:
  "filter nonempty_turn (map (to_turn (user_id h)) (fetched_window h st c)) = t # ts \<Longrightarrow>
   getMessageHistory h st c = Inr ((if role t = Model then t\<lparr>role := User\<rparr> else t) # ts)"
  by (simp add: getMessageHistory_def)

lemma trim_blanks: "trim ''  '' = []"
  by (simp add: trim_def isWhiteSpace_def)

lemma sample_own_window:
  "fetched_window sample_own_host sample_settings ''c1'' =
     [\<lparr>author_id = ''u1'', content = ''hi''\<rparr>, \<lparr>author_id = ''u2'', content = ''hello''\<rparr>,
      \<lparr>author_id = ''u1'', content = ''  ''\<rparr>, \<lparr>author_id = ''u1'', content = ''bye''\<rparr>]"
  by (simp add: fetched_window_def sample_own_host_def sample_settings_def slice_def)

lemma sample_window:
  "fetched_window sample_host sample_settings ''c1'' =
     [\<lparr>author_id = ''u2'', content = ''hello''\<rparr>,
      \<lparr>author_id = ''u2'', content = ''are you there?''\<rparr>]"
  by (simp add: fetched_window_def sample_host_def sample_settings_def slice_def)

lemma sample_own_kept:
  "filter nonempty_turn
     (map (to_turn (user_id sample_own_host))
        (fetched_window sample_own_host sample_settings ''c1'')) =
   \<lparr>role = Model, parts = [''hi'']\<rparr> #
   [\<lparr>role = User, parts = [''hello'']\<rparr>, \<lparr>role = Model, parts = [''bye'']\<rparr>]"
  by (simp add: sample_own_window nonempty_to_turn trim_blanks)
    (simp add: to_turn_def sample_own_host_def trim_def isWhiteSpace_def)

lemma sample_kept:
  "filter nonempty_turn
     (map (to_turn (user_id sample_host)) (fetched_window sample_host sample_settings ''c1'')) =
   \<lparr>role = User, parts = [''hello'']\<rparr> # [\<lparr>role = User, parts = [''are you there?'']\<rparr>]"
  by (simp add: sample_window nonempty_to_turn)
    (simp add: to_turn_def sample_host_def trim_def isWhiteSpace_def)

text \<open>
  C3. On a channel without messages, and on one whose messages are all blank, the code does
  not return the empty sequence: \<open>msgdict[0]\<close> is \<open>undefined\<close> and reading its \<open>role\<close> throws.
  Here \<open>c1\<close> has an empty list, \<open>c2\<close> is unknown to the store, \<open>c3\<close> has one blank message.
\<close>

theorem getMessageHistory_throws_on_empty:
  "getMessageHistory sample_quiet_host sample_settings ''c1'' = Inl (TypeError (cannot_read ''role'')) \<and>
   getMessageHistory sample_quiet_host sample_settings ''c2'' = Inl (TypeError (cannot_read ''role'')) \<and>
   getMessageHistory sample_quiet_host sample_settings ''c3'' = Inl (TypeError (cannot_read ''role''))"
  by (simp add: getMessageHistory_empty fetched_window_def sample_quiet_host_def slice_def
      sample_settings_def trim_blanks)

text \<open>
  C6. When the first turn left by the filter has the role \<open>model\<close>, the assembler returns
  the turns with the role of that first turn set to \<open>user\<close>, its text and all later turns as
  they were; when the first turn has the role \<open>user\<close>, it returns the turns unchanged.
\<close>

theorem leading_role_rewritten:
  "filter nonempty_turn (map (to_turn (user_id h)) (fetched_window h st c)) = t # ts \<Longrightarrow>
   (role t = Model \<longrightarrow> getMessageHistory h st c = Inr (t\<lparr>role := User\<rparr> # ts)) \<and>
   (role t = User \<longrightarrow> getMessageHistory h st c = Inr (t # ts))"
  by (simp add: getMessageHistory_returns)

theorem leading_role_rewritten_witness:
  "getMessageHistory sample_own_host sample_settings ''c1'' =
     Inr [\<lparr>role = User, parts = [''hi'']\<rparr>, \<lparr>role = User, parts = [''hello'']\<rparr>,
          \<lparr>role = Model, parts = [''bye'']\<rparr>] \<and>
   getMessageHistory sample_host sample_settings ''c1'' =
     Inr [\<lparr>role = User, parts = [''hello'']\<rparr>, \<lparr>role = User, parts = [''are you there?'']\<rparr>]"
  using leading_role_rewritten [OF sample_own_kept] leading_role_rewritten [OF sample_kept]
  by simp

text \<open>
  What the filter and the rewrite leave, for every window: a history that is returned has
  the contents of the non-blank messages as its texts, in the order of the window, and one
  is returned whenever the window has a non-blank message.
\<close>

lemma kept_texts_in_order:
  "(getMessageHistory h st c = Inr hist \<longrightarrow>
      map parts hist =
        map (\<lambda>m. [content m])
          (filter (\<lambda>m. trim (content m) \<noteq> []) (fetched_window h st c)) \<and>
      tl hist =
        tl (map (to_turn (user_id h))
              (filter (\<lambda>m. trim (content m) \<noteq> []) (fetched_window h st c)))) \<and>
   (filter (\<lambda>m. trim (content m) \<noteq> []) (fetched_window h st c) \<noteq> [] \<longrightarrow>
      (\<exists>hist. getMessageHistory h st c = Inr hist))"
proof (cases "filter (\<lambda>m. trim (content m) \<noteq> []) (fetched_window h st c)")
  case Nil
  then show ?thesis by (simp add: getMessageHistory_empty)
next
  case (Cons m ms)
  then have "getMessageHistory h st c =
      Inr ((if role (to_turn (user_id h) m) = Model
            then (to_turn (user_id h) m)\<lparr>role := User\<rparr>
            else to_turn (user_id h) m) # map (to_turn (user_id h)) ms)"
    by (simp add: getMessageHistory_def kept_turns_eq)
  then show ?thesis using Cons by (auto simp: to_turn_def)
qed

text \<open>
  C7. On a window whose messages are all blank, every turn is removed by the filter and
  none remains, so the output is to be the empty sequence; the code gives no output at all:
  with nothing left, \<open>msgdict[0]\<close> is \<open>undefined\<close> and reading its \<open>role\<close> throws.
\<close>

theorem all_blank_window_throws:
  "fetched_window sample_blank_host sample_settings ''c1'' =
     [\<lparr>author_id = ''u2'', content = ''  ''\<rparr>, \<lparr>author_id = ''u1'', content = []\<rparr>] \<and>
   filter (\<lambda>m. trim (content m) \<noteq> [])
     (fetched_window sample_blank_host sample_settings ''c1'') = [] \<and>
   getMessageHistory sample_blank_host sample_settings ''c1'' =
     Inl (TypeError (cannot_read ''role''))"
proof -
  have window: "fetched_window sample_blank_host sample_settings ''c1'' =
     [\<lparr>author_id = ''u2'', content = ''  ''\<rparr>, \<lparr>author_id = ''u1'', content = []\<rparr>]"
    by (simp add: fetched_window_def sample_blank_host_def sample_settings_def slice_def)
  have kept: "filter (\<lambda>m. trim (content m) \<noteq> [])
     (fetched_window sample_blank_host sample_settings ''c1'') = []"
    by (simp add: window trim_blanks) (simp add: trim_def)
  show ?thesis
    using window kept getMessageHistory_empty [OF kept] by simp
qed


section \<open>Properties of the provider adapter\<close>

lemma makeAIRequest_unknown:
  "provider \<noteq> ''gemini'' \<Longrightarrow> provider \<noteq> ''deepseek'' \<Longrightarrow> provider \<noteq> ''openai'' \<Longrightarrow>
   makeAIRequest net provider key mdl history message = (Failure ''Unknown provider'', [])"
  by (simp add: makeAIRequest_def)

lemma makeAICall_unknown:
  "aiProvider st \<noteq> ''gemini'' \<Longrightarrow> aiProvider st \<noteq> ''deepseek'' \<Longrightarrow>
   aiProvider st \<noteq> ''openai'' \<Longrightarrow> apiKey st \<noteq> [] \<Longrightarrow>
   makeAICall st net history message = (Inr [], [])"
  by (simp add: makeAICall_def csp_catch_def)

lemma makeAICall_no_key:
  "apiKey st = [] \<Longrightarrow>
   makeAICall st net history message = (Inl (Error ''API key is required''), [])"
  by (simp add: makeAICall_def)

lemma csp_catch_first: "snd r = x # xs \<Longrightarrow> \<exists>rest. snd (csp_catch p r) = x # rest"
  by (simp add: csp_catch_def split: sum.splits)

lemma makeAICall_gemini:
  "apiKey st \<noteq> [] \<Longrightarrow> aiProvider st = ''gemini'' \<Longrightarrow>
   \<exists>rest. snd (makeAICall st net history message) =
     GeminiCall \<lparr>g_apiKey = apiKey st, g_model = or_default (model st) ''gemini-2.5-pro'',
                 g_history = history, g_message = message\<rparr> # rest"
  by (simp add: makeAICall_def Let_def csp_catch_first gemini_branch_def)

lemma rest_request_ok:
  "wire_history provider history = Inr ws \<Longrightarrow>
   \<exists>req. rest_request provider key mdl history message = Inr req \<and>
     body_messages req = ws @ [\<lparr>w_role = ''user'', w_content = message\<rparr>]"
  by (simp add: rest_request_def Let_def)

lemma rest_branch_call:
  "rest_request p key mdl history message = Inr req \<Longrightarrow>
   snd (rest_branch net p key mdl history message) = [FetchCall req]"
  by (simp add: rest_branch_def split: sum.splits)

lemma makeAICall_rest:
  assumes "apiKey st \<noteq> []" and "aiProvider st = ''deepseek'' \<or> aiProvider st = ''openai''"
    and "wire_history (aiProvider st) history = Inr ws"
  shows "\<exists>req rest. snd (makeAICall st net history message) = FetchCall req # rest \<and>
     body_messages req = ws @ [\<lparr>w_role = ''user'', w_content = message\<rparr>]"
proof -
  from rest_request_ok [OF assms(3)]
  obtain req
    where req: "rest_request (aiProvider st) (apiKey st) (model st) history message = Inr req"
      and body: "body_messages req = ws @ [\<lparr>w_role = ''user'', w_content = message\<rparr>]"
    by blast
  have "snd (rest_branch net (aiProvider st) (apiKey st) (model st) history message)
      = [FetchCall req]"
    using req by (rule rest_branch_call)
  moreover have "makeAICall st net history message =
      csp_catch (aiProvider st)
        (rest_branch net (aiProvider st) (apiKey st) (model st) history message)"
    using assms(1,2) by (auto simp: makeAICall_def Let_def)
  ultimately have "\<exists>rest. snd (makeAICall st net history message) = FetchCall req # rest"
    by (simp add: csp_catch_first)
  with body show ?thesis by blast
qed

lemma wire_history_parts:
  "\<forall>t\<in>set hs. parts t \<noteq> [] \<Longrightarrow> \<exists>ws. wire_history p hs = Inr ws \<and> length ws = length hs"
  by (induction hs) (auto split: list.splits)

lemma history_has_parts:
  assumes "getMessageHistory h st c = Inr hist"
  shows "\<forall>t\<in>set hist. parts t \<noteq> []"
proof -
  let ?kept = "filter nonempty_turn (map (to_turn (user_id h)) (fetched_window h st c))"
  have all: "\<forall>t\<in>set ?kept. parts t \<noteq> []"
    by (auto simp: nonempty_turn_def split: list.splits)
  show ?thesis
  proof (cases ?kept)
    case Nil
    then show ?thesis using assms by (simp add: getMessageHistory_def)
  next
    case (Cons t ts)
    then have "hist = (if role t = Model then t\<lparr>role := User\<rparr> else t) # ts"
      using assms getMessageHistory_returns [OF Cons] by simp
    moreover have "parts t \<noteq> []" "\<forall>x\<in>set ts. parts x \<noteq> []"
      using all Cons by simp_all
    ultimately show ?thesis by auto
  qed
qed

lemma generateReply_dispatch:
  "trim message \<noteq> [] \<Longrightarrow> getMessageHistory h st c = Inr hist \<Longrightarrow>
   generateReply h st net c message =
     makeAICall st net (butlast hist @ [\<lparr>role = User, parts = [customInstructions st]\<rparr>])
       message"
  by (auto simp: generateReply_def trim_def)

lemma sample_history:
  "getMessageHistory sample_host st ''c1'' =
     Inr [\<lparr>role = User, parts = [''hello'']\<rparr>, \<lparr>role = User, parts = [''are you there?'']\<rparr>]"
  if "historyLength st = 10"
proof -
  have "fetched_window sample_host st ''c1'' = fetched_window sample_host sample_settings ''c1''"
    using that by (simp add: fetched_window_def sample_settings_def split: option.splits)
  then show ?thesis
    using sample_kept by (simp add: getMessageHistory_def)
qed

lemma trim_hello: "trim ''hello'' \<noteq> []"
  by (simp add: trim_def isWhiteSpace_def)

lemma sample_unknown_gate_open:
  "\<not> gate_closed sample_host (sample_world\<lparr>store := sample_unknown_settings\<rparr>) sample_event"
  by (simp add: gate_closed_def sample_host_def sample_world_def sample_event_def
      sample_settings_def sample_unknown_settings_def)

text \<open>
  C4. With a provider that is none of the three and a non-empty key, \<open>makeAICall\<close> makes no
  network call but returns the empty string as if it were a reply, and \<open>handleMessage\<close>
  goes on to send a message with empty content. \<open>makeAIRequest\<close> returns the failure
  \<open>Unknown provider\<close> on the same input.
\<close>

theorem unknown_provider_returns_empty_reply:
  "makeAICall sample_unknown_settings sample_network [] ''hi'' = (Inr [], []) \<and>
   handleMessage sample_host sample_network (sample_world\<lparr>store := sample_unknown_settings\<rparr>)
       sample_event =
     (sample_world\<lparr>store := sample_unknown_settings\<rparr>,
      [Assign_deBounce True, TypingPost ''c1'', TypingPost ''c1'', Pace 0,
       SendMessage ''c1'' [], Cooldown 5, Assign_deBounce False]) \<and>
   makeAIRequest sample_network ''claude'' ''k'' [] [] ''hi'' = (Failure ''Unknown provider'', [])"
proof -
  have st: "aiProvider sample_unknown_settings = ''claude''"
    "apiKey sample_unknown_settings = ''k''"
    "historyLength sample_unknown_settings = 10" "showTyping sample_unknown_settings"
    "cooldown sample_unknown_settings = 5"
    by (simp_all add: sample_unknown_settings_def sample_settings_def)
  have call: "makeAICall sample_unknown_settings net history message = (Inr [], [])"
    for net history message
    by (rule makeAICall_unknown) (simp_all add: st)
  have reply: "generateReply sample_host sample_unknown_settings sample_network ''c1'' ''hello''
      = (Inr [], [])"
    using generateReply_dispatch [OF trim_hello sample_history [OF st(3)]] call by simp
  have "try_block sample_host sample_network sample_unknown_settings sample_event =
      (Inr (), [TypingPost ''c1'', TypingPost ''c1'', Pace 0, SendMessage ''c1'' []])"
    using reply
    by (simp add: try_block_def sample_event_def event_content_def typing_def st send_reply_def)
  then have "handleMessage sample_host sample_network
       (sample_world\<lparr>store := sample_unknown_settings\<rparr>) sample_event =
     (sample_world\<lparr>store := sample_unknown_settings\<rparr>,
      [Assign_deBounce True, TypingPost ''c1'', TypingPost ''c1'', Pace 0,
       SendMessage ''c1'' [], Cooldown 5, Assign_deBounce False])"
    using handleMessage_open [OF sample_unknown_gate_open, of sample_network]
    by (simp add: st sample_world_def run_steps_def)
  moreover have "makeAIRequest sample_network ''claude'' ''k'' [] [] ''hi''
      = (Failure ''Unknown provider'', [])"
    by (simp add: makeAIRequest_unknown)
  ultimately show ?thesis using call by simp
qed

text \<open>
  C5. With an empty API key, \<open>makeAICall\<close> throws \<open>API key is required\<close> and has no effect
  at all, whatever the history, the message and the provider; \<open>generateReply\<close> then ends in
  an error as well, with no effect, so no request reaches the SDK or \<open>fetch\<close>.
\<close>

theorem missing_key_fails_before_network:
  "apiKey st = [] \<Longrightarrow>
   makeAICall st net history message = (Inl (Error ''API key is required''), []) \<and>
   isl (fst (generateReply h st net c message)) \<and>
   snd (generateReply h st net c message) = []"
  by (simp add: makeAICall_no_key generateReply_def split: sum.splits)

theorem missing_key_fails_before_network_witness:
  "apiKey sample_keyless_settings = [] \<and>
   makeAICall sample_keyless_settings sample_network
       [\<lparr>role = User, parts = [''Be brief.'']\<rparr>] ''hello''
     = (Inl (Error ''API key is required''), []) \<and>
   isl (fst (generateReply sample_host sample_keyless_settings sample_network ''c1'' ''hello'')) \<and>
   snd (generateReply sample_host sample_keyless_settings sample_network ''c1'' ''hello'') = []"
proof -
  have key: "apiKey sample_keyless_settings = []"
    by (simp add: sample_keyless_settings_def)
  show ?thesis
    using key
      missing_key_fails_before_network [OF key, where net = sample_network
        and history = "[\<lparr>role = User, parts = [''Be brief.'']\<rparr>]" and message = "''hello''"
        and h = sample_host and c = "''c1''"]
    by simp
qed

text \<open>
  C10, as amended. When the trigger message is not empty after trimming and the assembler
  returns a history, \<open>generateReply\<close> calls \<open>makeAICall\<close> with that history without its last
  turn and with a final user turn holding the custom instructions, and with the trigger as
  the separate message argument. With a key and the Gemini provider this history and this
  message are the ones of the SDK request; with a key and deepseek or openai the request
  body holds the renamed turns of this history followed by one user turn with the trigger.
  The dispatched history has a turn with the text of the trigger exactly when a turn of the
  assembled history other than its last, or the custom instructions, has that text.
\<close>

theorem reply_history_dispatched:
  "trim message \<noteq> [] \<Longrightarrow> getMessageHistory h st c = Inr hist \<Longrightarrow>
   dispatched = butlast hist @ [\<lparr>role = User, parts = [customInstructions st]\<rparr>] \<Longrightarrow>
   generateReply h st net c message = makeAICall st net dispatched message \<and>
   (apiKey st \<noteq> [] \<and> aiProvider st = ''gemini'' \<longrightarrow>
      (\<exists>rest. snd (generateReply h st net c message) =
         GeminiCall \<lparr>g_apiKey = apiKey st, g_model = or_default (model st) ''gemini-2.5-pro'',
                     g_history = dispatched, g_message = message\<rparr> # rest)) \<and>
   (apiKey st \<noteq> [] \<and> (aiProvider st = ''deepseek'' \<or> aiProvider st = ''openai'') \<longrightarrow>
      (\<exists>req ws rest. snd (generateReply h st net c message) = FetchCall req # rest \<and>
         wire_history (aiProvider st) dispatched = Inr ws \<and> length ws = length dispatched \<and>
         body_messages req = ws @ [\<lparr>w_role = ''user'', w_content = message\<rparr>])) \<and>
   ((\<exists>t\<in>set dispatched. parts t = [message]) \<longleftrightarrow>
      (\<exists>t\<in>set (butlast hist). parts t = [message]) \<or> customInstructions st = message)"
proof -
  assume msg: "trim message \<noteq> []" and hist: "getMessageHistory h st c = Inr hist"
    and d: "dispatched = butlast hist @ [\<lparr>role = User, parts = [customInstructions st]\<rparr>]"
  have call: "generateReply h st net c message = makeAICall st net dispatched message"
    using generateReply_dispatch [OF msg hist] d by simp
  have "\<forall>t\<in>set dispatched. parts t \<noteq> []"
    using history_has_parts [OF hist] d by (auto dest: in_set_butlastD)
  then obtain ws where ws: "wire_history (aiProvider st) dispatched = Inr ws"
      and len: "length ws = length dispatched"
    using wire_history_parts by blast
  have inside: "(\<exists>t\<in>set dispatched. parts t = [message]) \<longleftrightarrow>
      (\<exists>t\<in>set (butlast hist). parts t = [message]) \<or> customInstructions st = message"
    by (auto simp: d)
  have gemini: "apiKey st \<noteq> [] \<and> aiProvider st = ''gemini'' \<longrightarrow>
      (\<exists>rest. snd (generateReply h st net c message) =
         GeminiCall \<lparr>g_apiKey = apiKey st, g_model = or_default (model st) ''gemini-2.5-pro'',
                     g_history = dispatched, g_message = message\<rparr> # rest)"
    using call makeAICall_gemini [of st net dispatched message] by auto
  have rest: "apiKey st \<noteq> [] \<and> (aiProvider st = ''deepseek'' \<or> aiProvider st = ''openai'') \<longrightarrow>
      (\<exists>req ws rest. snd (generateReply h st net c message) = FetchCall req # rest \<and>
         wire_history (aiProvider st) dispatched = Inr ws \<and> length ws = length dispatched \<and>
         body_messages req = ws @ [\<lparr>w_role = ''user'', w_content = message\<rparr>])"
    using call makeAICall_rest [OF _ _ ws, of net message] ws len by auto
  show ?thesis
    using call gemini rest inside by (intro conjI)
qed

theorem reply_history_dispatched_witness:
  "trim ''are you there?'' \<noteq> [] \<and>
   getMessageHistory sample_host sample_settings ''c1'' =
     Inr [\<lparr>role = User, parts = [''hello'']\<rparr>, \<lparr>role = User, parts = [''are you there?'']\<rparr>] \<and>
   generateReply sample_host sample_settings sample_network ''c1'' ''are you there?'' =
     makeAICall sample_settings sample_network
       [\<lparr>role = User, parts = [''hello'']\<rparr>, \<lparr>role = User, parts = [''Be brief.'']\<rparr>]
       ''are you there?'' \<and>
   snd (generateReply sample_host sample_settings sample_network ''c1'' ''are you there?'') =
     [GeminiCall \<lparr>g_apiKey = ''k'', g_model = ''gemini-2.5-pro'',
                  g_history = [\<lparr>role = User, parts = [''hello'']\<rparr>,
                               \<lparr>role = User, parts = [''Be brief.'']\<rparr>],
                  g_message = ''are you there?''\<rparr>] \<and>
   \<lparr>role = User, parts = [''are you there?'']\<rparr> \<notin>
     set [\<lparr>role = User, parts = [''hello'']\<rparr>, \<lparr>role = User, parts = [''Be brief.'']\<rparr>]"
proof -
  have msg: "trim ''are you there?'' \<noteq> []"
    by (simp add: trim_def isWhiteSpace_def)
  have hist: "getMessageHistory sample_host sample_settings ''c1'' =
     Inr [\<lparr>role = User, parts = [''hello'']\<rparr>, \<lparr>role = User, parts = [''are you there?'']\<rparr>]"
    by (rule sample_history) (simp add: sample_settings_def)
  have call: "snd (makeAICall sample_settings sample_network
       [\<lparr>role = User, parts = [''hello'']\<rparr>, \<lparr>role = User, parts = [''Be brief.'']\<rparr>]
       ''are you there?'') =
     [GeminiCall \<lparr>g_apiKey = ''k'', g_model = ''gemini-2.5-pro'',
                  g_history = [\<lparr>role = User, parts = [''hello'']\<rparr>,
                               \<lparr>role = User, parts = [''Be brief.'']\<rparr>],
                  g_message = ''are you there?''\<rparr>]"
    by (simp add: makeAICall_def sample_settings_def gemini_branch_def or_default_def
        sample_network_def csp_catch_def)
  show ?thesis
    using msg hist call
      reply_history_dispatched [OF msg hist, where net = sample_network
        and dispatched = "[\<lparr>role = User, parts = [''hello'']\<rparr>,
                           \<lparr>role = User, parts = [''Be brief.'']\<rparr>]"]
    by (simp add: sample_settings_def)
qed

text \<open>
  C10, as stated, fails when the store already holds a later message of the channel at the
  moment the history is assembled: the turn that \<open>pop\<close> removes is then that later message,
  and the trigger \<open>hello\<close>, passed as the message, is also a turn of the dispatched history.
\<close>

theorem trigger_inside_dispatched_history:
  "getMessageHistory sample_host sample_settings ''c1'' =
     Inr [\<lparr>role = User, parts = [''hello'']\<rparr>, \<lparr>role = User, parts = [''are you there?'']\<rparr>] \<and>
   generateReply sample_host sample_settings sample_network ''c1'' ''hello'' =
     (Inr ''ok'',
      [GeminiCall \<lparr>g_apiKey = ''k'', g_model = ''gemini-2.5-pro'',
                   g_history = [\<lparr>role = User, parts = [''hello'']\<rparr>,
                                \<lparr>role = User, parts = [''Be brief.'']\<rparr>],
                   g_message = ''hello''\<rparr>]) \<and>
   \<lparr>role = User, parts = [''hello'']\<rparr> \<in>
     set [\<lparr>role = User, parts = [''hello'']\<rparr>, \<lparr>role = User, parts = [''Be brief.'']\<rparr>]"
proof -
  have "getMessageHistory sample_host sample_settings ''c1'' =
     Inr [\<lparr>role = User, parts = [''hello'']\<rparr>, \<lparr>role = User, parts = [''are you there?'']\<rparr>]"
    by (rule sample_history) (simp add: sample_settings_def)
  moreover have "generateReply sample_host sample_settings sample_network ''c1'' ''hello'' =
     makeAICall sample_settings sample_network
       [\<lparr>role = User, parts = [''hello'']\<rparr>, \<lparr>role = User, parts = [''Be brief.'']\<rparr>]
       ''hello''"
    using generateReply_dispatch [OF trim_hello sample_history [of sample_settings]]
    by (simp add: sample_settings_def)
  moreover have "makeAICall sample_settings sample_network
       [\<lparr>role = User, parts = [''hello'']\<rparr>, \<lparr>role = User, parts = [''Be brief.'']\<rparr>]
       ''hello'' =
     (Inr ''ok'',
      [GeminiCall \<lparr>g_apiKey = ''k'', g_model = ''gemini-2.5-pro'',
                   g_history = [\<lparr>role = User, parts = [''hello'']\<rparr>,
                                \<lparr>role = User, parts = [''Be brief.'']\<rparr>],
                   g_message = ''hello''\<rparr>])"
    by (simp add: makeAICall_def sample_settings_def gemini_branch_def or_default_def
        sample_network_def csp_catch_def)
  ultimately show ?thesis by simp
qed

section \<open>Properties of the splitter\<close>

lemma newline_white: "isWhiteSpace newline"
  by (simp add: isWhiteSpace_def newline_def)

lemma nl_plus_Some: "nl_plus (c # cs) = Some n \<Longrightarrow> c = newline"
  by (simp add: nl_plus_def split: if_splits)

lemma nl_plus_newline: "\<exists>n. nl_plus (newline # cs) = Some n"
  by (simp add: nl_plus_def)

lemma sep_tail_extend: "sep_tail x = Some n \<Longrightarrow> \<exists>m. sep_tail (x @ y) = Some m"
proof (induction x arbitrary: n)
  case Nil
  then show ?case by simp
next
  case (Cons c cs)
  show ?case
  proof (cases "sep_tail cs")
    case None
    with Cons.prems have "nl_plus (c # cs) = Some n"
      by (simp split: if_splits)
    then have c: "c = newline" by (rule nl_plus_Some)
    show ?thesis
      using nl_plus_newline [of "cs @ y"] by (cases "sep_tail (cs @ y)") (simp_all add: c newline_white)
  next
    case (Some k)
    from Cons.IH [OF Some] obtain m where "sep_tail (cs @ y) = Some m" by blast
    moreover have "isWhiteSpace c \<or> c = newline"
      using Cons.prems Some by (auto split: if_splits dest: nl_plus_Some)
    ultimately show ?thesis by (auto simp: newline_white)
  qed
qed

lemma match_sep_extend: "match_sep x \<noteq> None \<Longrightarrow> match_sep (x @ y) \<noteq> None"
proof (cases x)
  case Nil
  assume "match_sep x \<noteq> None"
  with Nil show ?thesis by simp
next
  case (Cons c cs)
  assume "match_sep x \<noteq> None"
  with Cons obtain n where "c = newline" "sep_tail cs = Some n"
    by (auto split: if_splits option.splits)
  with sep_tail_extend [of cs n y] Cons show ?thesis by auto
qed

lemma test_sep_iff: "test_sep x \<longleftrightarrow> (\<exists>i<length x. match_sep (drop i x) \<noteq> None)"
proof (induction x)
  case Nil
  then show ?case by simp
next
  case (Cons c cs)
  show ?case
  proof
    assume "test_sep (c # cs)"
    then consider "match_sep (c # cs) \<noteq> None" | "test_sep cs" by auto
    then show "\<exists>i<length (c # cs). match_sep (drop i (c # cs)) \<noteq> None"
    proof cases
      case 1
      then have "match_sep (drop 0 (c # cs)) \<noteq> None" by simp
      then show ?thesis by blast
    next
      case 2
      with Cons.IH obtain i where "i < length cs" "match_sep (drop i cs) \<noteq> None" by blast
      then have "Suc i < length (c # cs)" "match_sep (drop (Suc i) (c # cs)) \<noteq> None" by simp_all
      then show ?thesis by blast
    qed
  next
    assume "\<exists>i<length (c # cs). match_sep (drop i (c # cs)) \<noteq> None"
    then obtain i where i: "i < length (c # cs)" "match_sep (drop i (c # cs)) \<noteq> None" by blast
    show "test_sep (c # cs)"
    proof (cases i)
      case 0
      with i show ?thesis by simp
    next
      case (Suc j)
      with i have "j < length cs" "match_sep (drop j cs) \<noteq> None" by simp_all
      with Cons.IH have "test_sep cs" by blast
      then show ?thesis by simp
    qed
  qed
qed

lemma split_from_no_sep: "\<not> test_sep s \<Longrightarrow> split_from cur s = [cur @ s]"
  by (induction s arbitrary: cur) (auto simp del: match_sep.simps)

lemma sep_tail_None_iff: "sep_tail cs = None \<longleftrightarrow> newline \<notin> set (takeWhile isWhiteSpace cs)"
proof (induction cs)
  case Nil
  then show ?case by simp
next
  case (Cons c cs)
  have "nl_plus (c # cs) = None \<longleftrightarrow> c \<noteq> newline"
    by (simp add: nl_plus_def)
  with Cons show ?case
    by (auto simp: newline_white split: option.splits)
qed

lemma match_sep_iff:
  "match_sep (c # cs) \<noteq> None \<longleftrightarrow> c = newline \<and> newline \<in> set (takeWhile isWhiteSpace cs)"
  using sep_tail_None_iff [of cs] by (auto split: option.splits)

lemma test_sep_has: "test_sep s = has_separator s"
proof (induction s)
  case Nil
  then show ?case by simp
next
  case (Cons c cs)
  then show ?case
    using match_sep_iff [of c cs] by (auto simp del: match_sep.simps)
qed

lemma sep_tail_shape:
  "sep_tail cs = Some k \<Longrightarrow>
   0 < k \<and> k \<le> length cs \<and> list_all isWhiteSpace (take k cs) \<and> last (take k cs) = newline \<and>
   newline \<notin> set (takeWhile isWhiteSpace (drop k cs))"
proof (induction cs arbitrary: k)
  case Nil
  then show ?case by simp
next
  case (Cons c cs)
  show ?case
  proof (cases "sep_tail cs")
    case None
    with Cons.prems have nl: "nl_plus (c # cs) = Some k"
      by (simp split: if_splits)
    then have c: "c = newline" by (rule nl_plus_Some)
    from None have free: "newline \<notin> set (takeWhile isWhiteSpace cs)"
      by (simp add: sep_tail_None_iff)
    then have "takeWhile (\<lambda>x. x = newline) cs = []"
      by (cases cs) (auto simp: newline_white)
    with nl c have "k = 1" by (simp add: nl_plus_def)
    with c free show ?thesis by (simp add: newline_white)
  next
    case (Some j)
    have ws: "isWhiteSpace c"
    proof (rule ccontr)
      assume "\<not> isWhiteSpace c"
      with Cons.prems have "nl_plus (c # cs) = Some k" by simp
      then have "c = newline" by (rule nl_plus_Some)
      with \<open>\<not> isWhiteSpace c\<close> show False by (simp add: newline_white)
    qed
    with Cons.prems Some have k: "k = Suc j" by simp
    from Cons.IH [OF Some] have ih: "0 < j" "j \<le> length cs" "list_all isWhiteSpace (take j cs)"
      "last (take j cs) = newline" "newline \<notin> set (takeWhile isWhiteSpace (drop j cs))"
      by simp_all
    from ih(1,2) have "take j cs \<noteq> []" by auto
    with ih ws show ?thesis by (simp add: k)
  qed
qed

lemma match_sep_shape:
  assumes "match_sep s = Some n"
  shows "n \<le> length s \<and> blank_line_separator (take n s) \<and>
         newline \<notin> set (takeWhile isWhiteSpace (drop n s))"
proof (cases s)
  case Nil
  with assms show ?thesis by simp
next
  case (Cons c cs)
  with assms obtain k where c: "c = newline" and k: "sep_tail cs = Some k" and n: "n = Suc k"
    by (auto split: if_splits option.splits)
  from sep_tail_shape [OF k] have sh: "0 < k" "k \<le> length cs" "list_all isWhiteSpace (take k cs)"
    "last (take k cs) = newline" "newline \<notin> set (takeWhile isWhiteSpace (drop k cs))"
    by simp_all
  from sh(1,2) obtain b bs where tk: "take k cs = b # bs"
    by (cases "take k cs") auto
  have "blank_line_separator (c # take k cs)"
    using sh(3,4) c unfolding tk by simp
  with sh Cons n show ?thesis by simp
qed

lemma split_from_nonempty: "split_from cur s \<noteq> []"
  by (induction cur s rule: split_from.induct) (auto split: option.splits)

lemma inside_free_step:
  assumes "\<forall>i<length cur. match_sep (drop i (cur @ c # cs)) = None"
    and "match_sep (c # cs) = None"
  shows "\<forall>i<length (cur @ [c]). match_sep (drop i ((cur @ [c]) @ cs)) = None"
proof (intro allI impI)
  fix i assume "i < length (cur @ [c])"
  then consider "i < length cur" | "i = length cur" by fastforce
  then show "match_sep (drop i ((cur @ [c]) @ cs)) = None"
  proof cases
    case 1
    with assms(1) show ?thesis by simp
  next
    case 2
    with assms(2) show ?thesis by simp
  qed
qed

lemma trailing_newline_matches:
  assumes "newline \<in> set (takeWhile isWhiteSpace (rev cur))"
  shows "\<exists>i<length cur. match_sep (drop i (cur @ newline # cs)) \<noteq> None"
proof -
  from assms obtain u v where uv: "takeWhile isWhiteSpace (rev cur) = u @ newline # v"
    by (auto dest: split_list)
  have "rev cur = takeWhile isWhiteSpace (rev cur) @ dropWhile isWhiteSpace (rev cur)"
    by simp
  then have "rev cur = u @ newline # v @ dropWhile isWhiteSpace (rev cur)"
    by (simp add: uv)
  then have "rev (rev cur) = rev (u @ newline # v @ dropWhile isWhiteSpace (rev cur))"
    by simp
  then have cur: "cur = (rev (dropWhile isWhiteSpace (rev cur)) @ rev v) @ newline # rev u"
    by simp
  define a where "a = rev (dropWhile isWhiteSpace (rev cur)) @ rev v"
  have cur': "cur = a @ newline # rev u" using cur by (simp add: a_def)
  have "set u \<subseteq> set (takeWhile isWhiteSpace (rev cur))" by (auto simp: uv)
  then have ws: "\<forall>x\<in>set (rev u). isWhiteSpace x"
    by (auto dest: set_takeWhileD)
  then have "takeWhile isWhiteSpace (rev u @ newline # cs) =
      rev u @ takeWhile isWhiteSpace (newline # cs)"
    by (intro takeWhile_append2) auto
  then have "newline \<in> set (takeWhile isWhiteSpace (rev u @ newline # cs))"
    by (simp add: newline_white)
  then have "match_sep (newline # rev u @ newline # cs) \<noteq> None"
    using match_sep_iff [of newline "rev u @ newline # cs"] by simp
  moreover have "drop (length a) (cur @ newline # cs) = newline # rev u @ newline # cs"
    by (subst cur') simp
  moreover have "length a < length cur"
    using arg_cong [OF cur', of length] by simp
  ultimately show ?thesis by metis
qed

lemma has_separator_iff:
  "has_separator s \<longleftrightarrow> (\<exists>a m b. s = a @ m @ b \<and> blank_line_separator m)"
proof
  assume "has_separator s"
  then show "\<exists>a m b. s = a @ m @ b \<and> blank_line_separator m"
  proof (induction s)
    case Nil
    then show ?case by simp
  next
    case (Cons c cs)
    show ?case
    proof (cases "c = newline \<and> newline \<in> set (takeWhile isWhiteSpace cs)")
      case True
      then obtain u v where uv: "takeWhile isWhiteSpace cs = u @ newline # v"
        by (auto dest: split_list)
      have "cs = takeWhile isWhiteSpace cs @ dropWhile isWhiteSpace cs" by simp
      then have cs: "cs = (u @ [newline]) @ v @ dropWhile isWhiteSpace cs"
        by (simp add: uv)
      have "set u \<subseteq> set (takeWhile isWhiteSpace cs)" by (auto simp: uv)
      then have "\<forall>x\<in>set u. isWhiteSpace x" by (auto dest: set_takeWhileD)
      then have "blank_line_separator (newline # u @ [newline])"
        by (cases u) (simp_all add: newline_white list_all_iff)
      moreover have "c # cs = [] @ (newline # u @ [newline]) @ (v @ dropWhile isWhiteSpace cs)"
        using True by (subst cs) simp
      ultimately show ?thesis by blast
    next
      case False
      with Cons.prems have "has_separator cs" by auto
      from Cons.IH [OF this] obtain a m b where "cs = a @ m @ b" "blank_line_separator m"
        by blast
      then have "c # cs = (c # a) @ m @ b \<and> blank_line_separator m" by simp
      then show ?thesis by blast
    qed
  qed
next
  assume "\<exists>a m b. s = a @ m @ b \<and> blank_line_separator m"
  then obtain a m b where s: "s = a @ m @ b" and m: "blank_line_separator m" by blast
  from m obtain x y ys where mm: "m = x # y # ys" by (cases m rule: blank_line_separator.cases) auto
  with m have x: "x = newline" and ws: "list_all isWhiteSpace (y # ys)"
    and l: "last (y # ys) = newline" by simp_all
  have "newline \<in> set (y # ys)" using l last_in_set [of "y # ys"] by auto
  moreover have "takeWhile isWhiteSpace ((y # ys) @ b) = (y # ys) @ takeWhile isWhiteSpace b"
    using ws by (intro takeWhile_append2) (auto simp: list_all_iff)
  ultimately have "newline \<in> set (takeWhile isWhiteSpace ((y # ys) @ b))"
    by (simp only: set_append) blast
  then have "has_separator (m @ b)" using x mm by simp
  then show "has_separator s" unfolding s by (induction a) simp_all
qed


lemma no_match_inside:
  assumes "\<forall>i<length cur. match_sep (drop i (cur @ s)) = None"
  shows "\<not> has_separator cur"
proof
  assume "has_separator cur"
  then obtain i where i: "i < length cur" "match_sep (drop i cur) \<noteq> None"
    by (auto simp: test_sep_has [symmetric] test_sep_iff)
  from i(2) have "match_sep (drop i cur @ s) \<noteq> None" by (rule match_sep_extend)
  with i(1) assms show False by simp
qed

lemma split_from_paragraphs:
  "\<forall>i<length cur. match_sep (drop i (cur @ s)) = None \<Longrightarrow>
   \<exists>seps. paragraphs_with (cur @ s) (split_from cur s) seps"
proof (induction cur s rule: split_from.induct)
  case (1 cur)
  from no_match_inside [OF "1.prems"] have "paragraphs_with (cur @ []) (split_from cur []) []"
    by simp
  then show ?case by blast
next
  case (2 cur c cs)
  show ?case
  proof (cases "match_sep (c # cs)")
    case None
    from "2.IH"(1) [OF None inside_free_step [OF "2.prems" None]] None
    show ?thesis by simp
  next
    case (Some n)
    then have c: "c = newline" by (auto split: if_splits)
    let ?s = "take n (c # cs)" and ?rest = "drop n (c # cs)"
    from match_sep_shape [OF Some] have n: "n \<le> length (c # cs)"
      and sep: "blank_line_separator ?s"
      and lead: "newline \<notin> set (takeWhile isWhiteSpace ?rest)" by simp_all
    have len: "length ?s = n" using n by simp
    have rest: "drop (length cur + length ?s) (cur @ c # cs) = ?rest"
      by (simp only: len) simp
    have trail: "newline \<notin> set (takeWhile isWhiteSpace (rev cur))"
    proof
      assume "newline \<in> set (takeWhile isWhiteSpace (rev cur))"
      from trailing_newline_matches [OF this, of cs] "2.prems" c show False by auto
    qed
    have free: "\<not> has_separator cur" by (rule no_match_inside [OF "2.prems"])
    from "2.IH"(2) [OF Some] obtain seps where ih:
      "paragraphs_with ([] @ ?rest) (split_from [] ?rest) seps" by auto
    obtain q qs where q: "split_from [] ?rest = q # qs"
      using split_from_nonempty [of "[]" ?rest] by (cases "split_from [] ?rest") auto
    have "cur @ c # cs = cur @ ?s @ ?rest" by simp
    then have "paragraphs_with (cur @ c # cs) (cur # split_from [] ?rest) (?s # seps)"
      using free trail sep lead ih n unfolding q
      by (simp only: paragraphs_with.simps rest) (simp add: min_absorb2)
    then have "\<exists>seps. paragraphs_with (cur @ c # cs) (cur # split_from [] ?rest) seps"
      by blast
    moreover have "split_from cur (c # cs) = cur # split_from [] ?rest"
      using Some by simp
    ultimately show ?thesis by (simp only:)
  qed
qed

lemma sep_tail_exact:
  "\<forall>x\<in>set w. isWhiteSpace x \<Longrightarrow> newline \<notin> set (takeWhile isWhiteSpace r) \<Longrightarrow>
   sep_tail (w @ newline # r) = Some (Suc (length w))"
proof (induction w)
  case Nil
  then have "sep_tail r = None" by (simp add: sep_tail_None_iff)
  moreover from Nil have "takeWhile (\<lambda>x. x = newline) r = []"
    by (cases r) (auto simp: newline_white)
  ultimately show ?case by (simp add: newline_white nl_plus_def)
next
  case (Cons c w)
  then show ?case by simp
qed

lemma match_sep_exact:
  assumes "blank_line_separator s" and "newline \<notin> set (takeWhile isWhiteSpace r)"
  shows "match_sep (s @ r) = Some (length s)"
proof -
  from assms(1) obtain a b cs where s: "s = a # b # cs"
    by (cases s rule: blank_line_separator.cases) auto
  with assms(1) have a: "a = newline" and ws: "list_all isWhiteSpace (b # cs)"
    and l: "last (b # cs) = newline" by simp_all
  define w where "w = butlast (b # cs)"
  have bcs: "b # cs = w @ [newline]"
    using l append_butlast_last_id [of "b # cs"] by (simp add: w_def)
  have "\<forall>x\<in>set w. isWhiteSpace x"
    using ws by (auto simp: w_def list_all_iff dest: in_set_butlastD)
  from sep_tail_exact [OF this assms(2)] have "sep_tail ((b # cs) @ r) = Some (Suc (length w))"
    by (simp add: bcs)
  moreover have "length s = Suc (Suc (length w))"
    using arg_cong [OF bcs, of length] by (simp add: s)
  ultimately show ?thesis by (simp add: s a)
qed

lemma no_match_before_separator:
  assumes free: "\<not> has_separator p"
    and trail: "newline \<notin> set (takeWhile isWhiteSpace (rev p))"
  shows "\<forall>i<length p. match_sep (drop i (p @ t)) = None"
proof (intro allI impI)
  fix i assume i: "i < length p"
  then obtain c q where cq: "drop i p = c # q" by (cases "drop i p") auto
  show "match_sep (drop i (p @ t)) = None"
  proof (rule ccontr)
    assume "match_sep (drop i (p @ t)) \<noteq> None"
    then have m: "match_sep (c # q @ t) \<noteq> None" using i cq by simp
    then have c: "c = newline" and nl: "newline \<in> set (takeWhile isWhiteSpace (q @ t))"
      using match_sep_iff [of c "q @ t"] by simp_all
    show False
    proof (cases "\<forall>x\<in>set q. isWhiteSpace x")
      case True
      have "rev p = rev (take i p @ drop i p)" by simp
      also have "\<dots> = rev q @ newline # rev (take i p)"
        by (simp only: cq c) simp
      finally have "rev p = rev q @ newline # rev (take i p)" .
      moreover have "takeWhile isWhiteSpace (rev q @ newline # rev (take i p)) =
          rev q @ takeWhile isWhiteSpace (newline # rev (take i p))"
        using True by (intro takeWhile_append2) auto
      ultimately have "newline \<in> set (takeWhile isWhiteSpace (rev p))"
        by (simp add: newline_white)
      with trail show False by simp
    next
      case False
      then obtain x where "x \<in> set q" "\<not> isWhiteSpace x" by blast
      then have "takeWhile isWhiteSpace (q @ t) = takeWhile isWhiteSpace q"
        by (rule takeWhile_append1)
      with nl c have "match_sep (drop i p) \<noteq> None"
        using match_sep_iff [of c q] by (simp add: cq)
      with i have "test_sep p" by (auto simp: test_sep_iff)
      with free show False by (simp add: test_sep_has)
    qed
  qed
qed

lemma split_from_skip:
  "\<forall>i<length p. match_sep (drop i (p @ t)) = None \<Longrightarrow>
   split_from cur (p @ t) = split_from (cur @ p) t"
proof (induction p arbitrary: cur)
  case Nil
  then show ?case by simp
next
  case (Cons c p)
  from Cons.prems have head: "match_sep (c # p @ t) = None" by fastforce
  from Cons.prems have "\<forall>i<length p. match_sep (drop i (p @ t)) = None" by fastforce
  from Cons.IH [OF this, of "cur @ [c]"] head show ?case by simp
qed

lemma paragraphs_unique:
  "paragraphs_with reply ps seps \<Longrightarrow> split_from [] reply = ps"
proof (induction reply ps seps rule: paragraphs_with.induct)
  case (1 reply p)
  then show ?case by (simp add: split_from_no_sep test_sep_has)
next
  case (2 reply p ps s seps)
  let ?rest = "drop (length p + length s) reply"
  from "2.prems" have reply: "reply = p @ s @ ?rest" and free: "\<not> has_separator p"
    and trail: "newline \<notin> set (takeWhile isWhiteSpace (rev p))"
    and sep: "blank_line_separator s"
    and lead: "newline \<notin> set (takeWhile isWhiteSpace ?rest)"
    and rec: "paragraphs_with ?rest ps seps" by simp_all
  from "2.IH" [OF rec] have ih: "split_from [] ?rest = ps" .
  from sep obtain a b cs where s: "s = a # b # cs"
    by (cases s rule: blank_line_separator.cases) auto
  have m: "match_sep (s @ ?rest) = Some (length s)" by (rule match_sep_exact [OF sep lead])
  have "split_from [] (p @ s @ ?rest) = split_from ([] @ p) (s @ ?rest)"
    by (rule split_from_skip) (rule no_match_before_separator [OF free trail])
  also have "\<dots> = p # split_from [] ?rest"
    using m unfolding s by (simp del: match_sep.simps)
  finally show ?case using ih reply by simp
qed (simp_all)

lemma paragraphs_iff: "(\<exists>seps. paragraphs_with reply ps seps) \<longleftrightarrow> ps = split_sep reply"
proof
  assume "\<exists>seps. paragraphs_with reply ps seps"
  then show "ps = split_sep reply"
    by (auto simp: split_sep_def dest: paragraphs_unique)
next
  assume "ps = split_sep reply"
  then show "\<exists>seps. paragraphs_with reply ps seps"
    using split_from_paragraphs [of "[]" reply] by (simp add: split_sep_def)
qed

lemma sent_contents_append: "sent_contents (a @ b) = sent_contents a @ sent_contents b"
  by (induction a rule: sent_contents.induct) simp_all

lemma sent_typing: "sent_contents (typing st c) = []"
  by (simp add: typing_def)

lemma sent_send_parts: "sent_contents (send_parts st c ps) = filter (\<lambda>p. trim p \<noteq> []) ps"
  by (induction ps) (simp_all add: sent_contents_append sent_typing)

lemma sent_send_reply:
  "sent_contents (send_reply st c reply) =
     (if test_sep reply then filter (\<lambda>p. trim p \<noteq> []) (split_sep reply) else [reply])"
  by (simp add: send_reply_def sent_send_parts sent_contents_append sent_typing)

lemma sent_makeAICall: "sent_contents (snd (makeAICall st net history message)) = []"
proof -
  have catch: "sent_contents (snd (csp_catch p r)) = sent_contents (snd r)" for p r
    by (simp add: csp_catch_def sent_contents_append split: sum.splits)
  have gem: "sent_contents (snd (gemini_branch net k m history message)) = []" for k m
    by (simp add: gemini_branch_def Let_def)
  have rest: "sent_contents (snd (rest_branch net p k m history message)) = []" for p k m
    by (simp add: rest_branch_def split: sum.splits)
  show ?thesis
    by (simp add: makeAICall_def Let_def catch gem rest)
qed

lemma sent_generateReply: "sent_contents (snd (generateReply h st net c message)) = []"
  by (simp add: generateReply_def sent_makeAICall split: sum.splits)

lemma handleMessage_sends:
  assumes "\<not> gate_closed h w ev"
    and "fst (generateReply h (store w) net (e_channelId ev) (event_content ev)) = Inr reply"
  shows "sent_contents (snd (handleMessage h net w ev)) =
     (if has_separator reply then filter (\<lambda>p. trim p \<noteq> []) (split_sep reply)
      else [reply])"
proof -
  obtain effs where gen:
    "generateReply h (store w) net (e_channelId ev) (event_content ev) = (Inr reply, effs)"
    using assms(2)
    by (cases "generateReply h (store w) net (e_channelId ev) (event_content ev)") simp
  have "sent_contents effs = []"
    using sent_generateReply [of h "store w" net "e_channelId ev" "event_content ev"] gen
    by simp
  then have "sent_contents (snd (try_block h net (store w) ev)) =
      sent_contents (send_reply (store w) (e_channelId ev) reply)"
    using gen by (simp add: try_block_def sent_contents_append sent_typing)
  moreover have "fst (try_block h net (store w) ev) = Inr ()"
    using gen by (simp add: try_block_def)
  ultimately show ?thesis
    by (simp add: handleMessage_open [OF assms(1)] Let_def sent_contents_append
        sent_send_reply test_sep_has)
qed

lemma two_paragraphs_split:
  "split_sep (''Hello there!'' @ [CHR 0x0A, CHR 0x0A] @ ''How are you?'') =
     [''Hello there!'', ''How are you?'']"
  by (simp add: split_sep_def newline_def isWhiteSpace_def nl_plus_def)

lemma two_paragraphs_test:
  "test_sep (''Hello there!'' @ [CHR 0x0A, CHR 0x0A] @ ''How are you?'')"
  by (simp add: newline_def isWhiteSpace_def nl_plus_def)

lemma one_line_test: "\<not> test_sep ''Just one line.''"
  by (simp add: newline_def)

lemma trim_examples: "trim ''Hello there!'' \<noteq> []" "trim ''How are you?'' \<noteq> []"
  by (simp_all add: trim_def isWhiteSpace_def)

lemma two_paragraphs_with:
  "paragraphs_with (''Hello there!'' @ [CHR 0x0A, CHR 0x0A] @ ''How are you?'')
     [''Hello there!'', ''How are you?''] [[CHR 0x0A, CHR 0x0A]]"
  by (simp add: newline_def isWhiteSpace_def)

lemma one_line_free: "\<not> has_separator ''Just one line.''"
  by (simp add: newline_def)

text \<open>
  C8. When the handler passes the gate and a reply is generated, the contents of the
  messages it sends are, in order: when the reply has a blank-line separator, the parts of
  the split that are not blank; otherwise the whole reply, as one message. The parts of the
  split are the paragraphs of the reply in the sense of \<open>paragraphs_with\<close>, and nothing else
  is: put together with the separators between them they give the reply again, each
  separator is a line feed, white space and a line feed, reaching from the first to the
  last line feed it can, and no paragraph has a separator inside. A reply has a separator
  exactly when such a string occurs in it, and a reply without one is its own single part.
  The reply \<open>Hello there!\n\nHow are you?\<close> is sent as the two messages \<open>Hello there!\<close> and
  \<open>How are you?\<close>, the reply \<open>Just one line.\<close> as one message.
\<close>

theorem reply_sent_in_paragraphs:
  "(\<not> gate_closed h w ev \<and>
    fst (generateReply h (store w) net (e_channelId ev) (event_content ev)) = Inr reply \<longrightarrow>
      sent_contents (snd (handleMessage h net w ev)) =
        (if has_separator reply then filter (\<lambda>p. trim p \<noteq> []) (split_sep reply)
         else [reply])) \<and>
   ((\<exists>seps. paragraphs_with reply ps seps) \<longleftrightarrow> ps = split_sep reply) \<and>
   (has_separator reply \<longleftrightarrow> (\<exists>a m b. reply = a @ m @ b \<and> blank_line_separator m)) \<and>
   (\<not> has_separator reply \<longrightarrow> split_sep reply = [reply]) \<and>
   sent_contents (send_reply st c (''Hello there!'' @ [CHR 0x0A, CHR 0x0A] @ ''How are you?'')) =
     [''Hello there!'', ''How are you?''] \<and>
   sent_contents (send_reply st c ''Just one line.'') = [''Just one line.'']"
proof -
  have "sent_contents (send_reply st c (''Hello there!'' @ [CHR 0x0A, CHR 0x0A] @ ''How are you?''))
      = [''Hello there!'', ''How are you?'']"
    unfolding sent_send_reply
    using two_paragraphs_test two_paragraphs_split trim_examples by simp
  moreover have "sent_contents (send_reply st c ''Just one line.'') = [''Just one line.'']"
    unfolding sent_send_reply using one_line_test by simp
  moreover have "\<not> has_separator reply \<longrightarrow> split_sep reply = [reply]"
    by (simp add: split_sep_def split_from_no_sep test_sep_has)
  moreover note paragraphs_iff [of reply ps] has_separator_iff [of reply]
  ultimately show ?thesis
    using handleMessage_sends [of h w ev net reply] by blast
qed

theorem reply_sent_in_paragraphs_witness:
  "\<not> gate_closed sample_host sample_world sample_event \<and>
   fst (generateReply sample_host sample_settings sample_two_part_network ''c1'' ''hello'') =
     Inr (''Hello there!'' @ [CHR 0x0A, CHR 0x0A] @ ''How are you?'') \<and>
   sent_contents
     (snd (handleMessage sample_host sample_two_part_network sample_world sample_event)) =
     [''Hello there!'', ''How are you?''] \<and>
   paragraphs_with (''Hello there!'' @ [CHR 0x0A, CHR 0x0A] @ ''How are you?'')
     [''Hello there!'', ''How are you?''] [[CHR 0x0A, CHR 0x0A]] \<and>
   split_sep (''Hello there!'' @ [CHR 0x0A, CHR 0x0A] @ ''How are you?'') =
     [''Hello there!'', ''How are you?''] \<and>
   \<not> has_separator ''Just one line.'' \<and> split_sep ''Just one line.'' = [''Just one line.'']"
proof -
  have "generateReply sample_host sample_settings sample_two_part_network ''c1'' ''hello'' =
     makeAICall sample_settings sample_two_part_network
       [\<lparr>role = User, parts = [''hello'']\<rparr>, \<lparr>role = User, parts = [''Be brief.'']\<rparr>]
       ''hello''"
    using generateReply_dispatch [OF trim_hello sample_history [of sample_settings]]
    by (simp add: sample_settings_def)
  then have gen:
    "fst (generateReply sample_host sample_settings sample_two_part_network ''c1'' ''hello'') =
     Inr (''Hello there!'' @ [CHR 0x0A, CHR 0x0A] @ ''How are you?'')"
    by (simp add: makeAICall_def sample_settings_def gemini_branch_def or_default_def
        sample_two_part_network_def csp_catch_def)
  have ev: "store sample_world = sample_settings" "e_channelId sample_event = ''c1''"
    "event_content sample_event = ''hello''"
    by (simp_all add: sample_world_def sample_event_def event_content_def)
  have has: "has_separator (''Hello there!'' @ [CHR 0x0A, CHR 0x0A] @ ''How are you?'')"
    using two_paragraphs_test by (simp only: test_sep_has)
  note two = reply_sent_in_paragraphs [where h = sample_host and w = sample_world
        and ev = sample_event and net = sample_two_part_network
        and reply = "''Hello there!'' @ [CHR 0x0A, CHR 0x0A] @ ''How are you?''"
        and ps = "[''Hello there!'', ''How are you?'']"]
  note one = reply_sent_in_paragraphs [where reply = "''Just one line.''"]
  have "\<exists>seps. paragraphs_with (''Hello there!'' @ [CHR 0x0A, CHR 0x0A] @ ''How are you?'')
     [''Hello there!'', ''How are you?''] seps"
    using two_paragraphs_with by (rule exI)
  with two [THEN conjunct2, THEN conjunct1]
  have "[''Hello there!'', ''How are you?''] =
     split_sep (''Hello there!'' @ [CHR 0x0A, CHR 0x0A] @ ''How are you?'')"
    by (rule iffD1)
  then have split: "split_sep (''Hello there!'' @ [CHR 0x0A, CHR 0x0A] @ ''How are you?'') =
     [''Hello there!'', ''How are you?'']"
    by (rule sym)
  have "\<not> gate_closed sample_host sample_world sample_event \<and>
     fst (generateReply sample_host (store sample_world) sample_two_part_network
            (e_channelId sample_event) (event_content sample_event)) =
     Inr (''Hello there!'' @ [CHR 0x0A, CHR 0x0A] @ ''How are you?'')"
    using sample_gate_open gen by (simp add: ev)
  with two [THEN conjunct1]
  have "sent_contents
     (snd (handleMessage sample_host sample_two_part_network sample_world sample_event)) =
     (if has_separator (''Hello there!'' @ [CHR 0x0A, CHR 0x0A] @ ''How are you?'')
      then filter (\<lambda>p. trim p \<noteq> [])
             (split_sep (''Hello there!'' @ [CHR 0x0A, CHR 0x0A] @ ''How are you?''))
      else [''Hello there!'' @ [CHR 0x0A, CHR 0x0A] @ ''How are you?''])"
    by (rule mp)
  then have sends: "sent_contents
     (snd (handleMessage sample_host sample_two_part_network sample_world sample_event)) =
     [''Hello there!'', ''How are you?'']"
    using has trim_examples by (simp only: split if_True) simp
  from one [THEN conjunct2, THEN conjunct2, THEN conjunct2, THEN conjunct1] one_line_free
  have line: "split_sep ''Just one line.'' = [''Just one line.'']"
    by (rule mp)
  show ?thesis
    by (intro conjI) (fact sample_gate_open gen sends two_paragraphs_with split
        one_line_free line)+
qed

section \<open>Properties of one execution of the handler\<close>

lemma outward_typing: "list_all outward (typing st c)"
  by (simp add: typing_def)

lemma outward_send_parts: "list_all outward (send_parts st c ps)"
  by (induction ps) (simp_all add: outward_typing)

lemma outward_send_reply: "list_all outward (send_reply st c reply)"
  by (simp add: send_reply_def outward_send_parts outward_typing)

lemma outward_makeAICall: "list_all outward (snd (makeAICall st net history message))"
proof -
  have catch: "list_all outward (snd r) \<Longrightarrow> list_all outward (snd (csp_catch p r))" for p r
    by (simp add: csp_catch_def split: sum.splits)
  have gem: "list_all outward (snd (gemini_branch net k m history message))" for k m
    by (simp add: gemini_branch_def Let_def)
  have rest: "list_all outward (snd (rest_branch net p k m history message))" for p k m
    by (simp add: rest_branch_def split: sum.splits)
  show ?thesis
    by (simp add: makeAICall_def Let_def catch gem rest)
qed

lemma outward_generateReply: "list_all outward (snd (generateReply h st net c message))"
  by (simp add: generateReply_def outward_makeAICall split: sum.splits)

lemma outward_try_block: "list_all outward (snd (try_block h net st ev))"
  using outward_generateReply [of h st net "e_channelId ev" "event_content ev"]
  by (cases "generateReply h st net (e_channelId ev) (event_content ev)")
    (auto simp: try_block_def outward_typing outward_send_reply split: sum.splits)

lemma outward_no_write: "list_all outward steps \<Longrightarrow> Assign_deBounce b \<notin> set steps"
  by (induction steps) auto

lemma outward_no_cooldown: "list_all outward steps \<Longrightarrow> Cooldown r \<notin> set steps"
  by (induction steps) auto

lemma outward_run_steps: "list_all outward steps \<Longrightarrow> run_steps w steps = w"
  unfolding run_steps_def
proof (induction steps arbitrary: w)
  case Nil
  then show ?case by simp
next
  case (Cons e steps)
  then have "perform w e = w" by (cases e) simp_all
  with Cons show ?case by simp
qed

lemma busy_kept:
  "deBounce v \<Longrightarrow> \<forall>b. Assign_deBounce b \<notin> set steps \<Longrightarrow> deBounce (run_steps v steps)"
  unfolding run_steps_def
proof (induction steps arbitrary: v)
  case Nil
  then show ?case by simp
next
  case (Cons e steps)
  from Cons.prems have "deBounce (perform v e)" by (cases e) auto
  moreover from Cons.prems have "\<forall>b. Assign_deBounce b \<notin> set steps" by simp
  ultimately show ?case using Cons.IH by simp
qed

lemma catch_block_steps:
  "Assign_deBounce b \<notin> set (catch_block v)" "Cooldown r \<notin> set (catch_block v)"
  by (simp_all add: catch_block_def)

text \<open>
  C2. Every execution of \<open>handleMessage\<close> that passes the gate starts by setting
  \<open>deBounce\<close>, and ends with the cooldown wait followed by the assignment that clears
  \<open>deBounce\<close>; between the two assignments it neither writes \<open>deBounce\<close> nor waits for the
  cooldown. So \<open>deBounce\<close>, false before, is true after every step but the last, the
  cooldown wait included, and false after the last. This holds for every host and network,
  so for a reply sent in one message, for one sent in parts, and for every error of the
  cycle.
\<close>

theorem busy_always_released:
  "\<not> gate_closed h w ev \<Longrightarrow>
   (\<exists>mid. snd (handleMessage h net w ev) =
            Assign_deBounce True # mid @ [Cooldown (cooldown (store w)), Assign_deBounce False] \<and>
          (\<forall>b. Assign_deBounce b \<notin> set mid) \<and> (\<forall>r. Cooldown r \<notin> set mid)) \<and>
   (\<forall>k. 0 < k \<and> k < length (snd (handleMessage h net w ev)) \<longrightarrow>
        deBounce (run_steps w (take k (snd (handleMessage h net w ev))))) \<and>
   fst (handleMessage h net w ev) = run_steps w (snd (handleMessage h net w ev)) \<and>
   \<not> deBounce w \<and> \<not> deBounce (fst (handleMessage h net w ev))"
proof -
  assume open_gate: "\<not> gate_closed h w ev"
  define tried where "tried = try_block h net (store w) ev"
  define caught where "caught =
    (case fst tried of
       Inl e \<Rightarrow> catch_block (run_steps w (Assign_deBounce True # snd tried))
     | Inr u \<Rightarrow> [])"
  define mid where "mid = snd tried @ caught"
  define steps where
    "steps = Assign_deBounce True # mid @ [Cooldown (cooldown (store w)), Assign_deBounce False]"
  have hm: "handleMessage h net w ev = (run_steps w steps, steps)"
    unfolding steps_def mid_def caught_def tried_def
    using handleMessage_open [OF open_gate, of net]
    by (simp only: Let_def append_assoc)
  have tried_out: "list_all outward (snd tried)"
    unfolding tried_def by (rule outward_try_block)
  have caught_quiet: "Assign_deBounce b \<notin> set caught" "Cooldown r \<notin> set caught" for b r
    by (cases "fst tried"; simp add: caught_def catch_block_steps)+
  have no_write: "\<forall>b. Assign_deBounce b \<notin> set mid"
    using outward_no_write [OF tried_out] caught_quiet(1) by (simp add: mid_def)
  have no_wait: "\<forall>r. Cooldown r \<notin> set mid"
    using outward_no_cooldown [OF tried_out] caught_quiet(2) by (simp add: mid_def)
  have during: "deBounce (run_steps w (take k steps))" if k: "0 < k" "k < length steps" for k
  proof -
    obtain j where j: "k = Suc j" using k(1) by (cases k) simp_all
    have "j \<le> length (mid @ [Cooldown (cooldown (store w))])"
      using k(2) j by (simp add: steps_def)
    then have "take j (mid @ [Cooldown (cooldown (store w)), Assign_deBounce False]) =
        take j (mid @ [Cooldown (cooldown (store w))])"
      by (simp add: take_Cons')
    then have tk: "take k steps =
        Assign_deBounce True # take j (mid @ [Cooldown (cooldown (store w))])"
      by (simp add: steps_def j)
    have "\<forall>b. Assign_deBounce b \<notin> set (take j (mid @ [Cooldown (cooldown (store w))]))"
      using no_write by (auto dest: in_set_takeD)
    then have "deBounce (run_steps (perform w (Assign_deBounce True))
        (take j (mid @ [Cooldown (cooldown (store w))])))"
      by (intro busy_kept) simp_all
    then show ?thesis by (simp add: tk run_steps_def)
  qed
  have "run_steps w steps =
      perform (run_steps w (Assign_deBounce True # mid @ [Cooldown (cooldown (store w))]))
        (Assign_deBounce False)"
    by (simp add: steps_def run_steps_def)
  then have final: "\<not> deBounce (run_steps w steps)" by simp
  have idle: "\<not> deBounce w"
    using open_gate by (simp add: gate_closed_def)
  show ?thesis
    using hm no_write no_wait during final idle by (auto simp: steps_def)
qed

theorem busy_always_released_witness:
  "\<not> gate_closed sample_host sample_keyless_world sample_event \<and>
   snd (handleMessage sample_host sample_network sample_keyless_world sample_event) =
     [Assign_deBounce True, TypingPost ''c1'', Assign_hasShownError True, ErrorAlert,
      AlertTimer 60000, Cooldown 5, Assign_deBounce False] \<and>
   \<not> deBounce sample_keyless_world \<and>
   deBounce (run_steps sample_keyless_world
     [Assign_deBounce True, TypingPost ''c1'', Assign_hasShownError True, ErrorAlert,
      AlertTimer 60000, Cooldown 5]) \<and>
   \<not> deBounce (fst (handleMessage sample_host sample_network sample_keyless_world sample_event)) \<and>
   \<not> gate_closed sample_host sample_world sample_event \<and>
   deBounce (run_steps sample_world
     (take 1 (snd (handleMessage sample_host sample_two_part_network sample_world
                     sample_event)))) \<and>
   \<not> deBounce
      (fst (handleMessage sample_host sample_two_part_network sample_world sample_event))"
proof -
  have keyless: "\<not> gate_closed sample_host sample_keyless_world sample_event"
    by (simp add: gate_closed_def sample_host_def sample_world_def sample_event_def
        sample_settings_def sample_keyless_settings_def sample_keyless_world_def)
  have st: "apiKey sample_keyless_settings = []" "historyLength sample_keyless_settings = 10"
    "showTyping sample_keyless_settings" "cooldown sample_keyless_settings = 5"
    by (simp_all add: sample_keyless_settings_def sample_settings_def)
  have "generateReply sample_host sample_keyless_settings sample_network ''c1'' ''hello'' =
      (Inl (Error ''API key is required''), [])"
    using generateReply_dispatch [OF trim_hello sample_history [OF st(2)]]
    by (simp add: makeAICall_no_key [OF st(1)])
  then have tried:
    "try_block sample_host sample_network sample_keyless_settings sample_event =
      (Inl (Error ''API key is required''), [TypingPost ''c1''])"
    by (simp add: try_block_def sample_event_def event_content_def typing_def st)
  have steps: "snd (handleMessage sample_host sample_network sample_keyless_world sample_event) =
     [Assign_deBounce True, TypingPost ''c1'', Assign_hasShownError True, ErrorAlert,
      AlertTimer 60000, Cooldown 5, Assign_deBounce False]"
    using handleMessage_open [OF keyless, of sample_network] tried
    by (simp add: sample_keyless_world_def sample_world_def st catch_block_def run_steps_def)
  note keyless_run = busy_always_released [OF keyless, where net = sample_network]
  note parts_run = busy_always_released [OF sample_gate_open, where net = sample_two_part_network]
  from keyless_run
  have "\<forall>k. 0 < k \<and>
        k < length (snd (handleMessage sample_host sample_network sample_keyless_world
                           sample_event)) \<longrightarrow>
        deBounce (run_steps sample_keyless_world
          (take k (snd (handleMessage sample_host sample_network sample_keyless_world
                          sample_event))))"
    by blast
  then have "0 < (6::nat) \<and>
        6 < length (snd (handleMessage sample_host sample_network sample_keyless_world
                           sample_event)) \<longrightarrow>
        deBounce (run_steps sample_keyless_world
          (take 6 (snd (handleMessage sample_host sample_network sample_keyless_world
                          sample_event))))"
    by (rule spec)
  then have during: "deBounce (run_steps sample_keyless_world
     [Assign_deBounce True, TypingPost ''c1'', Assign_hasShownError True, ErrorAlert,
      AlertTimer 60000, Cooldown 5])"
    by (simp add: steps)
  from parts_run obtain mid where
    "snd (handleMessage sample_host sample_two_part_network sample_world sample_event) =
       Assign_deBounce True # mid @ [Cooldown (cooldown (store sample_world)),
                                     Assign_deBounce False]"
    by blast
  then have "1 < length
      (snd (handleMessage sample_host sample_two_part_network sample_world sample_event))"
    by simp
  moreover from parts_run
  have "\<forall>k. 0 < k \<and>
        k < length (snd (handleMessage sample_host sample_two_part_network sample_world
                           sample_event)) \<longrightarrow>
        deBounce (run_steps sample_world
          (take k (snd (handleMessage sample_host sample_two_part_network sample_world
                          sample_event))))"
    by blast
  ultimately have first: "deBounce (run_steps sample_world
     (take 1 (snd (handleMessage sample_host sample_two_part_network sample_world
                     sample_event))))"
    by (metis zero_less_one)
  have idle: "\<not> deBounce sample_keyless_world"
    using keyless_run by blast
  have released: "\<not> deBounce
      (fst (handleMessage sample_host sample_network sample_keyless_world sample_event))"
    using keyless_run by blast
  have released_parts: "\<not> deBounce
      (fst (handleMessage sample_host sample_two_part_network sample_world sample_event))"
    using parts_run by blast
  show ?thesis
    using keyless steps idle during released sample_gate_open first released_parts
    by blast
qed

end
